theory Spec2Isabelle
  imports Main "HOL-Library.Sublist"
begin

section \<open>Submitting objects for translation (wagtail\_localize/views/submit\_translations.py)\<close>

text \<open>
  A shallow embedding of \<^verbatim>\<open>TranslationCreator\<close>, \<^verbatim>\<open>SubmitTranslationForm\<close> and
  \<^verbatim>\<open>SubmitTranslationView.post\<close>. The database tables the view writes to are lists of
  rows in insertion order; every write is also appended to a journal, so that the order
  of the writes of one run can be stated. An exception raised by a collaborator is the
  outcome \<open>Raised\<close>; the state reached up to the raise is returned with it, as Python
  leaves it, and only \<open>atomic\<close> undoes it.
\<close>

subsection \<open>Data model\<close>

type_synonym key = nat
type_synonym Locale = nat
type_synonym user = nat

text \<open>
  A model instance as the view reads it: \<open>is_page\<close> is \<^verbatim>\<open>isinstance(instance, Page)\<close>,
  \<open>translation_key\<close> and \<open>locale_id\<close> are the fields of \<^verbatim>\<open>TranslatableMixin\<close>
  (\<^verbatim>\<open>instance.locale\<close>, compared by its id) and \<open>numchild\<close> is the page's counter column.
\<close>

record model_instance =
  pk :: nat
  is_page :: bool
  translation_key :: key
  locale_id :: Locale
  numchild :: nat

text \<open>The page hierarchy: a page with the result of \<^verbatim>\<open>get_children()\<close>.\<close>

datatype page_tree = PageNode (page: model_instance) (get_children: "page_tree list")

datatype translation_source = TranslationSource (object_id: key)

datatype translation = Translation (source: translation_source) (target_locale: Locale)

datatype event =
    SourceCreated translation_source
  | TranslationCreated translation
  | TargetSaved translation user

record database =
  source_objects :: "translation_source list"
  translation_objects :: "translation list"
  journal :: "event list"

datatype error = StorageFailure | UnresolvableReference | MessageFailure | AttributeError

datatype outcome = Done | Raised error

text \<open>
  The collaborators that are not in this file: \<open>specific\<close> is \<^verbatim>\<open>Page.specific\<close>,
  \<open>relatedobjectsegment_set\<close> lists the \<^verbatim>\<open>object\<close> of each related object segment of a
  source, \<open>get_instance\<close> resolves such an object in a locale (\<open>None\<close> when it raises),
  \<open>all_locales\<close> is \<^verbatim>\<open>Locale.objects\<close>, and the three \<open>_fails\<close> predicates say which
  repository calls raise. \<open>messages_installed\<close> says whether the request has a message
  storage (\<^verbatim>\<open>messages.success\<close> raises \<^verbatim>\<open>MessageFailure\<close> without one), and \<open>get_parent\<close>
  is \<^verbatim>\<open>Page.get_parent\<close>, which returns \<^verbatim>\<open>None\<close> for a page without parent.
\<close>

record env =
  specific :: "model_instance \<Rightarrow> model_instance"
  relatedobjectsegment_set :: "translation_source \<Rightarrow> key list"
  get_instance :: "key \<Rightarrow> Locale \<Rightarrow> model_instance option"
  all_locales :: "Locale list"
  source_fails :: "model_instance \<Rightarrow> bool"
  translation_fails :: "translation_source \<Rightarrow> Locale \<Rightarrow> bool"
  save_target_fails :: "translation \<Rightarrow> bool"
  messages_installed :: bool
  get_parent :: "model_instance \<Rightarrow> model_instance option"

text \<open>\<^verbatim>\<open>TranslationCreator\<close>: the fields set by \<^verbatim>\<open>__init__\<close>.\<close>

record translation_creator =
  user :: user
  target_locales :: "Locale list"
  seen_objects :: "key set"

definition TranslationCreator :: "user \<Rightarrow> Locale list \<Rightarrow> translation_creator" where
  "TranslationCreator u ls = \<lparr>user = u, target_locales = ls, seen_objects = {}\<rparr>"

subsection \<open>The repositories\<close>

text \<open>
  Modelled from the spec: \<^verbatim>\<open>TranslationSource.get_or_create_from_instance\<close> is defined in
  \<^verbatim>\<open>wagtail_localize.models\<close>, which is not among the sources. The spec: the Source
  Repository, given an object, returns an existing translation source or creates one,
  idempotent per object identity; at most one Source exists per object identity.
\<close>

definition get_or_create_from_instance ::
  "env \<Rightarrow> model_instance \<Rightarrow> database \<Rightarrow> (error + translation_source \<times> bool) \<times> database" where
  "get_or_create_from_instance e inst db =
     (if source_fails e inst then (Inl StorageFailure, db)
      else let src = TranslationSource (translation_key inst) in
        if src \<in> set (source_objects db) then (Inr (src, False), db)
        else (Inr (src, True),
              db\<lparr>source_objects := source_objects db @ [src],
                 journal := journal db @ [SourceCreated src]\<rparr>))"

text \<open>
  \<^verbatim>\<open>Translation.objects.get_or_create(source=..., target_locale=...)\<close>: the manager's
  get-or-create on the two lookup fields, returning the row and whether it was created.
\<close>

definition get_or_create ::
  "env \<Rightarrow> translation_source \<Rightarrow> Locale \<Rightarrow> database \<Rightarrow> (error + translation \<times> bool) \<times> database" where
  "get_or_create e src l db =
     (if translation_fails e src l then (Inl StorageFailure, db)
      else let t = Translation src l in
        if t \<in> set (translation_objects db) then (Inr (t, False), db)
        else (Inr (t, True),
              db\<lparr>translation_objects := translation_objects db @ [t],
                 journal := journal db @ [TranslationCreated t]\<rparr>))"

text \<open>
  Modelled from the spec: \<^verbatim>\<open>Translation.save_target\<close> is defined in
  \<^verbatim>\<open>wagtail_localize.models\<close>, which is not among the sources. The spec: the one-time
  initialization of a newly created task, on behalf of the submitting user.
\<close>

definition save_target :: "env \<Rightarrow> translation \<Rightarrow> user \<Rightarrow> database \<Rightarrow> outcome \<times> database" where
  "save_target e t u db =
     (if save_target_fails e t then (Raised StorageFailure, db)
      else (Done, db\<lparr>journal := journal db @ [TargetSaved t u]\<rparr>))"

subsection \<open>\<^verbatim>\<open>TranslationCreator.create_translations\<close>\<close>

text \<open>The loop of lines 86 to 94, over the target locales that are left.\<close>

fun set_up_translation_records ::
  "env \<Rightarrow> user \<Rightarrow> translation_source \<Rightarrow> Locale list \<Rightarrow> database \<Rightarrow> outcome \<times> database" where
  "set_up_translation_records e u src [] db = (Done, db)"
| "set_up_translation_records e u src (l # ls) db =
     (case get_or_create e src l db of
        (Inl err, db1) \<Rightarrow> (Raised err, db1)
      | (Inr (t, created), db1) \<Rightarrow>
          (case (if created then save_target e t u db1 else (Done, db1)) of
             (Raised err, db2) \<Rightarrow> (Raised err, db2)
           | (Done, db2) \<Rightarrow> set_up_translation_records e u src ls db2))"

text \<open>Lines 66 and 67: a page is replaced by its most specific instance.\<close>

definition specific_instance :: "env \<Rightarrow> model_instance \<Rightarrow> model_instance" where
  "specific_instance e i = (if is_page i then specific e i else i)"

text \<open>
  \<open>create_translations\<close> is the method; \<open>add_related\<close> is its loop of lines 79 to 83 over
  the related object segments that are left, which calls the method again with
  \<^verbatim>\<open>include_related_objects=False\<close>.
\<close>

function create_translations ::
    "env \<Rightarrow> model_instance \<Rightarrow> bool \<Rightarrow> translation_creator \<Rightarrow> database
      \<Rightarrow> outcome \<times> translation_creator \<times> database"
  and add_related ::
    "env \<Rightarrow> model_instance \<Rightarrow> key list \<Rightarrow> translation_creator \<Rightarrow> database
      \<Rightarrow> outcome \<times> translation_creator \<times> database"
where
  "create_translations e instance0 include_related_objects self db =
     (let inst = specific_instance e instance0 in
      if translation_key inst \<in> seen_objects self then (Done, self, db)
      else
        let self1 = self\<lparr>seen_objects := insert (translation_key inst) (seen_objects self)\<rparr> in
        case get_or_create_from_instance e inst db of
          (Inl err, db1) \<Rightarrow> (Raised err, self1, db1)
        | (Inr (src, created), db1) \<Rightarrow>
            (case (if include_related_objects
                   then add_related e inst (relatedobjectsegment_set e src) self1 db1
                   else (Done, self1, db1)) of
               (Raised err, self2, db2) \<Rightarrow> (Raised err, self2, db2)
             | (Done, self2, db2) \<Rightarrow>
                 (case set_up_translation_records e (user self2) src (target_locales self2) db2 of
                    (out, db3) \<Rightarrow> (out, self2, db3))))"
| "add_related e inst [] self db = (Done, self, db)"
| "add_related e inst (related_object # segs) self db =
     (case get_instance e related_object (locale_id inst) of
        None \<Rightarrow> (Raised UnresolvableReference, self, db)
      | Some related_instance \<Rightarrow>
          (case create_translations e related_instance False self db of
             (Raised err, self1, db1) \<Rightarrow> (Raised err, self1, db1)
           | (Done, self1, db1) \<Rightarrow> add_related e inst segs self1 db1))"
  by pat_completeness auto
termination
  by (relation "inv_image (less_than <*lex*> less_than)
        (\<lambda>x. case x of
           Inl (e, i, b, s, d) \<Rightarrow> (if b then 2 else 0, 0)
         | Inr (e, i, segs, s, d) \<Rightarrow> (Suc 0, length segs))") auto

declare create_translations.simps [simp del]

subsection \<open>\<^verbatim>\<open>SubmitTranslationForm\<close>\<close>

text \<open>
  The posted form data and the request. The queryset of the \<open>locales\<close> field is set by
  lines 45 to 47; a \<^verbatim>\<open>ModelMultipleChoiceField\<close> is required unless told otherwise, accepts
  only values of its queryset, and cleans to the rows of the queryset that were chosen.
  \<open>next_url\<close> is what \<^verbatim>\<open>get_valid_next_url_from_request\<close> finds in the request, the empty
  string when there is no valid next URL.
\<close>

record post_data =
  locales :: "Locale list"
  include_subtree :: bool

record request =
  request_user :: user
  POST :: post_data
  next_url :: string

definition locales_queryset :: "env \<Rightarrow> model_instance \<Rightarrow> Locale list" where
  "locales_queryset e inst = filter (\<lambda>l. l \<noteq> locale_id inst) (all_locales e)"

definition is_valid :: "env \<Rightarrow> model_instance \<Rightarrow> post_data \<Rightarrow> bool" where
  "is_valid e inst d \<longleftrightarrow>
     locales d \<noteq> [] \<and> (\<forall>l \<in> set (locales d). l \<in> set (locales_queryset e inst))"

definition cleaned_locales :: "env \<Rightarrow> model_instance \<Rightarrow> post_data \<Rightarrow> Locale list" where
  "cleaned_locales e inst d = filter (\<lambda>l. l \<in> set (locales d)) (locales_queryset e inst)"

subsection \<open>\<^verbatim>\<open>SubmitTranslationView.post\<close>\<close>

text \<open>
  \<open>walk\<close> is the local function \<^verbatim>\<open>_walk\<close> of lines 139 to 144 and \<open>walk_children\<close> its
  loop over the children that are left.
\<close>

fun walk ::
    "env \<Rightarrow> page_tree \<Rightarrow> translation_creator \<Rightarrow> database
      \<Rightarrow> outcome \<times> translation_creator \<times> database"
  and walk_children ::
    "env \<Rightarrow> page_tree list \<Rightarrow> translation_creator \<Rightarrow> database
      \<Rightarrow> outcome \<times> translation_creator \<times> database"
where
  "walk e (PageNode current_page children) translator db =
     walk_children e children translator db"
| "walk_children e [] translator db = (Done, translator, db)"
| "walk_children e (child_page # rest) translator db =
     (case create_translations e (page child_page) True translator db of
        (Raised err, translator1, db1) \<Rightarrow> (Raised err, translator1, db1)
      | (Done, translator1, db1) \<Rightarrow>
          (case (if numchild (page child_page) \<noteq> 0
                 then walk e child_page translator1 db1
                 else (Done, translator1, db1)) of
             (Raised err, translator2, db2) \<Rightarrow> (Raised err, translator2, db2)
           | (Done, translator2, db2) \<Rightarrow> walk_children e rest translator2 db2))"

datatype response = Redirect | RenderForm

text \<open>
  \<^verbatim>\<open>with transaction.atomic():\<close> the writes of the block are kept when it is left
  normally and undone when it is left by an exception, which goes on to the caller.
\<close>

definition atomic ::
  "(database \<Rightarrow> (error + response) \<times> database) \<Rightarrow> database \<Rightarrow> (error + response) \<times> database" where
  "atomic block db =
     (case block db of
        (Inl err, db1) \<Rightarrow> (Inl err, db)
      | (Inr r, db1) \<Rightarrow> (Inr r, db1))"

text \<open>
  Lines 133 to 146: the translator is made, the object is submitted with its related
  objects, and then the pages below it when it is a page and the subtree was asked for.
\<close>

definition run_creations ::
  "env \<Rightarrow> page_tree \<Rightarrow> request \<Rightarrow> database \<Rightarrow> outcome \<times> translation_creator \<times> database" where
  "run_creations e object req db =
     (let translator =
        TranslationCreator (request_user req) (cleaned_locales e (page object) (POST req)) in
      case create_translations e (page object) True translator db of
        (Raised err, translator1, db1) \<Rightarrow> (Raised err, translator1, db1)
      | (Done, translator1, db1) \<Rightarrow>
          (if is_page (page object)
           then (if include_subtree (POST req)
                 then walk e object translator1 db1
                 else (Done, translator1, db1))
           else (Done, translator1, db1)))"

text \<open>
  \<^verbatim>\<open>get_default_success_url\<close>, given here by the id that the URL is built from. The view is
  \<^verbatim>\<open>SubmitPageTranslationView\<close> when the object is a page and
  \<^verbatim>\<open>SubmitSnippetTranslationView\<close> otherwise. Lines 182 and 183 take the id of the parent
  of the page, which raises \<^verbatim>\<open>AttributeError\<close> when the page has no parent; lines 207 and
  208 take the arguments of the URL of the view.
\<close>

definition get_default_success_url :: "env \<Rightarrow> page_tree \<Rightarrow> error + nat" where
  "get_default_success_url e object =
     (if is_page (page object)
      then (case get_parent e (page object) of
              None \<Rightarrow> Inl AttributeError
            | Some parent \<Rightarrow> Inr (pk parent))
      else Inr (pk (page object)))"

text \<open>
  Lines 148 to 160, which are still inside the block: the label of the locales and the
  text of the message are formatted from the form and the object, \<^verbatim>\<open>messages.success\<close>
  stores the message and raises when the request has no message storage, and the
  response redirects to the next URL of the request or, when there is none, to the
  default URL of the view, which is not computed otherwise. An exception here leaves the
  block as one of the creations does. Nothing here writes to the tables.
\<close>

definition success_response :: "env \<Rightarrow> page_tree \<Rightarrow> request \<Rightarrow> error + response" where
  "success_response e object req =
     (if \<not> messages_installed e then Inl MessageFailure
      else if next_url req \<noteq> [] then Inr Redirect
      else (case get_default_success_url e object of
              Inl err \<Rightarrow> Inl err
            | Inr target \<Rightarrow> Inr Redirect))"

text \<open>The block of lines 133 to 160.\<close>

definition submit_block ::
  "env \<Rightarrow> page_tree \<Rightarrow> request \<Rightarrow> database \<Rightarrow> (error + response) \<times> database" where
  "submit_block e object req db =
     (case run_creations e object req db of
        (Raised err, translator2, db2) \<Rightarrow> (Inl err, db2)
      | (Done, translator2, db2) \<Rightarrow>
          (case success_response e object req of
             Inl err \<Rightarrow> (Inl err, db2)
           | Inr r \<Rightarrow> (Inr r, db2)))"

definition post ::
  "env \<Rightarrow> page_tree \<Rightarrow> request \<Rightarrow> database \<Rightarrow> (error + response) \<times> database" where
  "post e object req db =
     (if is_valid e (page object) (POST req)
      then atomic (submit_block e object req) db
      else (Inr RenderForm, db))"

subsection \<open>What one run adds\<close>

text \<open>
  The tables and the journal only grow by appending, so what a run has written is the
  part of each list behind the old one.
\<close>

definition added :: "'a list \<Rightarrow> 'a list \<Rightarrow> 'a list" where
  "added xs ys = drop (length xs) ys"

definition new_sources :: "database \<Rightarrow> database \<Rightarrow> translation_source list" where
  "new_sources d d' = added (source_objects d) (source_objects d')"

definition new_translations :: "database \<Rightarrow> database \<Rightarrow> translation list" where
  "new_translations d d' = added (translation_objects d) (translation_objects d')"

definition new_events :: "database \<Rightarrow> database \<Rightarrow> event list" where
  "new_events d d' = added (journal d) (journal d')"

definition extends :: "database \<Rightarrow> database \<Rightarrow> bool" where
  "extends d d' \<longleftrightarrow>
     prefix (source_objects d) (source_objects d') \<and>
     prefix (translation_objects d) (translation_objects d') \<and>
     prefix (journal d) (journal d')"


text \<open>The source a journal entry is about.\<close>

fun event_source :: "event \<Rightarrow> translation_source" where
  "event_source (SourceCreated x) = x"
| "event_source (TranslationCreated t) = source t"
| "event_source (TargetSaved t u) = source t"

text \<open>The rows a list of journal entries has inserted into each table.\<close>

fun created_sources :: "event list \<Rightarrow> translation_source list" where
  "created_sources [] = []"
| "created_sources (SourceCreated x # evs) = x # created_sources evs"
| "created_sources (ev # evs) = created_sources evs"

fun created_translations :: "event list \<Rightarrow> translation list" where
  "created_translations [] = []"
| "created_translations (TranslationCreated t # evs) = t # created_translations evs"
| "created_translations (ev # evs) = created_translations evs"

text \<open>
  The instances that the related object segments \<open>segs\<close> of \<open>inst\<close> resolve to, as
  \<open>create_translations\<close> goes on to treat them.
\<close>

fun related_instances :: "env \<Rightarrow> model_instance \<Rightarrow> key list \<Rightarrow> model_instance list" where
  "related_instances e inst [] = []"
| "related_instances e inst (k # segs) =
     (case get_instance e k (locale_id inst) of
        None \<Rightarrow> related_instances e inst segs
      | Some ri \<Rightarrow> specific_instance e ri # related_instances e inst segs)"

text \<open>
  \<open>quiet\<close>: no repository call that a run with the target locales \<open>ls\<close> can make raises.
  \<open>resolvable\<close>: every related object segment of the list resolves in the locale of \<open>inst\<close>.
\<close>

definition quiet :: "env \<Rightarrow> Locale list \<Rightarrow> bool" where
  "quiet e ls \<longleftrightarrow>
     (\<forall>i. \<not> source_fails e i) \<and>
     (\<forall>x. \<forall>l \<in> set ls. \<not> translation_fails e x l \<and> \<not> save_target_fails e (Translation x l))"

definition resolvable :: "env \<Rightarrow> model_instance \<Rightarrow> key list \<Rightarrow> bool" where
  "resolvable e inst segs \<longleftrightarrow> (\<forall>k \<in> set segs. get_instance e k (locale_id inst) \<noteq> None)"

subsection \<open>Relations between the state before and after a call\<close>

text \<open>
  \<open>frame\<close>: a call changes nothing of the translator but its set of seen objects, which
  grows. \<open>consistent\<close>: the tables and the journal are extended, the new rows are the
  ones the new journal entries insert, and no new row repeats another row.
  \<open>gated\<close>: the new journal has a \<open>TargetSaved\<close> entry at most once, only for the user
  \<open>u\<close> and a new translation, and for each of these when the call returns normally.
  \<open>evolves\<close>: all of these, and every new translation is to a target locale of the
  translator.
\<close>

definition frame :: "translation_creator \<Rightarrow> translation_creator \<Rightarrow> bool" where
  "frame s s' \<longleftrightarrow>
     user s' = user s \<and> target_locales s' = target_locales s \<and> seen_objects s \<subseteq> seen_objects s'"

definition consistent :: "database \<Rightarrow> database \<Rightarrow> bool" where
  "consistent d d' \<longleftrightarrow>
     extends d d' \<and>
     new_sources d d' = created_sources (new_events d d') \<and>
     new_translations d d' = created_translations (new_events d d') \<and>
     distinct (new_sources d d') \<and> set (new_sources d d') \<inter> set (source_objects d) = {} \<and>
     distinct (new_translations d d') \<and>
     set (new_translations d d') \<inter> set (translation_objects d) = {}"

definition gated :: "user \<Rightarrow> outcome \<Rightarrow> database \<Rightarrow> database \<Rightarrow> bool" where
  "gated u out d d' \<longleftrightarrow>
     (\<forall>t u'. count_list (new_events d d') (TargetSaved t u')
        \<le> (if u' = u \<and> t \<in> set (new_translations d d') then 1 else 0)) \<and>
     (out = Done \<longrightarrow>
       (\<forall>t u'. count_list (new_events d d') (TargetSaved t u')
          = (if u' = u \<and> t \<in> set (new_translations d d') then 1 else 0)))"

definition evolves ::
  "outcome \<Rightarrow> translation_creator \<Rightarrow> database \<Rightarrow> translation_creator \<Rightarrow> database \<Rightarrow> bool" where
  "evolves out s d s' d' \<longleftrightarrow>
     frame s s' \<and> consistent d d' \<and>
     (\<forall>t \<in> set (new_translations d d'). target_locale t \<in> set (target_locales s)) \<and>
     gated (user s) out d d'"

text \<open>
  \<open>owned\<close>: what a call writes is about objects that the call has marked as seen.
  \<open>covered\<close>: every object that the call has marked as seen has its source and a
  translation to every target locale.
\<close>

definition owned :: "translation_creator \<Rightarrow> database \<Rightarrow> translation_creator \<Rightarrow> database \<Rightarrow> bool" where
  "owned s d s' d' \<longleftrightarrow>
     (\<forall>ev \<in> set (new_events d d'). object_id (event_source ev) \<in> seen_objects s' - seen_objects s)"

definition covered :: "translation_creator \<Rightarrow> database \<Rightarrow> translation_creator \<Rightarrow> database \<Rightarrow> bool" where
  "covered s d s' d' \<longleftrightarrow>
     (\<forall>k \<in> seen_objects s' - seen_objects s.
        TranslationSource k \<in> set (source_objects d') \<and>
        (\<forall>l \<in> set (target_locales s). Translation (TranslationSource k) l \<in> set (translation_objects d')))"

text \<open>
  \<open>unfailed\<close>: for every object that a call has newly seen, the source of some instance
  with its key can be created and no translation to a target locale fails.
  \<open>honest\<close>: every task that the new journal entries initialise is one whose
  initialisation does not fail.
\<close>

definition unfailed :: "env \<Rightarrow> translation_creator \<Rightarrow> translation_creator \<Rightarrow> bool" where
  "unfailed e s s' \<longleftrightarrow>
     (\<forall>k \<in> seen_objects s' - seen_objects s.
        (\<exists>inst. translation_key inst = k \<and> \<not> source_fails e inst) \<and>
        (\<forall>l \<in> set (target_locales s). \<not> translation_fails e (TranslationSource k) l))"

definition honest :: "env \<Rightarrow> database \<Rightarrow> database \<Rightarrow> bool" where
  "honest e d d' \<longleftrightarrow>
     (\<forall>t u. TargetSaved t u \<in> set (new_events d d') \<longrightarrow> \<not> save_target_fails e t)"

subsection \<open>Example data\<close>

text \<open>
  Snippets and pages whose translation key is their number, in an environment whose
  related objects are given by a function on keys, where every reference resolves, no
  call raises and every page has page 0 as its parent.
\<close>

definition snippet :: "nat \<Rightarrow> Locale \<Rightarrow> model_instance" where
  "snippet k l = \<lparr>pk = k, is_page = False, translation_key = k, locale_id = l, numchild = 0\<rparr>"

definition page_instance :: "nat \<Rightarrow> Locale \<Rightarrow> nat \<Rightarrow> model_instance" where
  "page_instance k l n = \<lparr>pk = k, is_page = True, translation_key = k, locale_id = l, numchild = n\<rparr>"

definition graph_env :: "(key \<Rightarrow> key list) \<Rightarrow> env" where
  "graph_env rel =
     \<lparr>specific = (\<lambda>i. i),
      relatedobjectsegment_set = (\<lambda>x. rel (object_id x)),
      get_instance = (\<lambda>k l. Some (snippet k l)),
      all_locales = [0, 1, 2, 3, 4, 5],
      source_fails = (\<lambda>i. False),
      translation_fails = (\<lambda>x l. False),
      save_target_fails = (\<lambda>t. False),
      messages_installed = True,
      get_parent = (\<lambda>i. Some (page_instance 0 (locale_id i) 1))\<rparr>"

text \<open>A and B are related objects of each other.\<close>

definition cycle :: "key \<Rightarrow> key list" where
  "cycle k = (if k = 1 then [2] else if k = 2 then [1] else [])"

text \<open>A has the related object B, and B has the related object C.\<close>

definition chain :: "key \<Rightarrow> key list" where
  "chain k = (if k = 1 then [2] else if k = 2 then [3] else [])"

text \<open>Only object 2 has a related object, which is object 3.\<close>

definition child_only :: "key \<Rightarrow> key list" where
  "child_only k = (if k = 2 then [3] else [])"

text \<open>
  An environment without related objects in which the creation of a translation to
  locale 5 raises.
\<close>

definition fifth_fails :: env where
  "fifth_fails = (graph_env (\<lambda>k. []))\<lparr>translation_fails := (\<lambda>x l. l = 5)\<rparr>"

text \<open>An environment without related objects in which no page has a parent.\<close>

definition parentless :: env where
  "parentless = (graph_env (\<lambda>k. []))\<lparr>get_parent := (\<lambda>i. None)\<rparr>"

text \<open>
  Environments without related objects in which the source of object 2 cannot be
  created, and in which the initialisation of a task for locale 2 raises.
\<close>

definition source_two_fails :: env where
  "source_two_fails = (graph_env (\<lambda>k. []))\<lparr>source_fails := (\<lambda>i. translation_key i = 2)\<rparr>"

definition save_two_fails :: env where
  "save_two_fails = (graph_env (\<lambda>k. []))\<lparr>save_target_fails := (\<lambda>t. target_locale t = 2)\<rparr>"

text \<open>A root page with one child page.\<close>

definition root_with_child :: page_tree where
  "root_with_child = PageNode (page_instance 1 0 1) [PageNode (page_instance 2 0 0) []]"

text \<open>
  An empty database, and one in which object 1 has a source and a translation to
  locale 1.
\<close>

definition empty_db :: database where
  "empty_db = \<lparr>source_objects = [], translation_objects = [], journal = []\<rparr>"

definition db_one :: database where
  "db_one = \<lparr>source_objects = [TranslationSource 1],
     translation_objects = [Translation (TranslationSource 1) 1], journal = []\<rparr>"

section \<open>Properties\<close>

subsection \<open>Lists and the loop over the target locales\<close>

lemma added_same [simp]: "added xs xs = []"
  by (simp add: added_def)

lemma added_append [simp]: "added xs (xs @ zs) = zs"
  by (simp add: added_def)

lemma added_trans: "prefix xs ys \<Longrightarrow> prefix ys zs \<Longrightarrow> added xs zs = added xs ys @ added ys zs"
  by (auto simp: prefix_def added_def)

lemma records_Cons_cases [consumes 1, case_names get_raised save_raised existing created]:
  assumes run: "set_up_translation_records e u src (l # ls) d = (out, d')"
  obtains
    (get_raised) "translation_fails e src l" "out = Raised StorageFailure" "d' = d"
  | (save_raised) "\<not> translation_fails e src l" "Translation src l \<notin> set (translation_objects d)"
      "save_target_fails e (Translation src l)" "out = Raised StorageFailure"
      "d' = d\<lparr>translation_objects := translation_objects d @ [Translation src l],
              journal := journal d @ [TranslationCreated (Translation src l)]\<rparr>"
  | (existing) "\<not> translation_fails e src l" "Translation src l \<in> set (translation_objects d)"
      "set_up_translation_records e u src ls d = (out, d')"
  | (created) "\<not> translation_fails e src l" "Translation src l \<notin> set (translation_objects d)"
      "\<not> save_target_fails e (Translation src l)"
      "set_up_translation_records e u src ls
         (d\<lparr>translation_objects := translation_objects d @ [Translation src l],
            journal := journal d @ [TranslationCreated (Translation src l), TargetSaved (Translation src l) u]\<rparr>)
        = (out, d')"
  using run
  by (auto simp: get_or_create_def save_target_def Let_def split: if_splits)

lemma records_sources: "set_up_translation_records e u src ls d = (out, d') \<Longrightarrow> source_objects d' = source_objects d"
proof (induction ls arbitrary: d)
  case Nil then show ?case by simp
next
  case (Cons l ls)
  from Cons.prems show ?case
    by (cases rule: records_Cons_cases) (auto dest: Cons.IH)
qed

lemma records_prefix:
  "set_up_translation_records e u src ls d = (out, d') \<Longrightarrow>
     prefix (translation_objects d) (translation_objects d') \<and> prefix (journal d) (journal d')"
proof (induction ls arbitrary: d)
  case Nil then show ?case by simp
next
  case (Cons l ls)
  from Cons.prems show ?case
  proof (cases rule: records_Cons_cases)
    case created
    from Cons.IH[OF created(4)] show ?thesis by (auto dest: append_prefixD)
  qed (auto dest: Cons.IH)
qed

lemma records_added:
  "set_up_translation_records e u src ls d = (out, d') \<Longrightarrow>
     distinct (added (translation_objects d) (translation_objects d')) \<and>
     set (added (translation_objects d) (translation_objects d')) \<inter> set (translation_objects d) = {} \<and>
     set (added (translation_objects d) (translation_objects d')) \<subseteq> Translation src ` set ls"
proof (induction ls arbitrary: d)
  case Nil then show ?case by simp
next
  case (Cons l ls)
  from Cons.prems show ?case
  proof (cases rule: records_Cons_cases)
    case existing
    from Cons.IH[OF existing(3)] show ?thesis by auto
  next
    case created
    let ?d1 = "d\<lparr>translation_objects := translation_objects d @ [Translation src l],
            journal := journal d @ [TranslationCreated (Translation src l), TargetSaved (Translation src l) u]\<rparr>"
    from records_prefix[OF created(4)] have "prefix (translation_objects ?d1) (translation_objects d')" by simp
    then have eq: "added (translation_objects d) (translation_objects d') =
        Translation src l # added (translation_objects ?d1) (translation_objects d')"
      by (auto simp: prefix_def added_def)
    from Cons.IH[OF created(4)] created(2) show ?thesis unfolding eq by auto
  qed auto
qed

subsection \<open>The cases of one call\<close>

lemma get_or_create_from_instance_src:
  "get_or_create_from_instance e inst d = (Inr (src, c), d1) \<Longrightarrow> src = TranslationSource (translation_key inst)"
  by (auto simp: get_or_create_from_instance_def Let_def split: if_splits)

lemma create_translations_seen:
  "translation_key (specific_instance e i) \<in> seen_objects s \<Longrightarrow> create_translations e i b s d = (Done, s, d)"
  by (simp add: create_translations.simps[of e i b s d])

lemma create_translations_cases [consumes 1, case_names seen source_raised related_raised records]:
  assumes run: "create_translations e i b s d = (out, s', d')"
  obtains
    (seen) "translation_key (specific_instance e i) \<in> seen_objects s"
      "out = Done" "s' = s" "d' = d"
  | (source_raised) err where "translation_key (specific_instance e i) \<notin> seen_objects s"
      "get_or_create_from_instance e (specific_instance e i) d = (Inl err, d')"
      "out = Raised err"
      "s' = s\<lparr>seen_objects := insert (translation_key (specific_instance e i)) (seen_objects s)\<rparr>"
  | (related_raised) c d1 err where "translation_key (specific_instance e i) \<notin> seen_objects s"
      "get_or_create_from_instance e (specific_instance e i) d =
         (Inr (TranslationSource (translation_key (specific_instance e i)), c), d1)"
      "b"
      "add_related e (specific_instance e i)
         (relatedobjectsegment_set e (TranslationSource (translation_key (specific_instance e i))))
         (s\<lparr>seen_objects := insert (translation_key (specific_instance e i)) (seen_objects s)\<rparr>) d1
        = (Raised err, s', d')"
      "out = Raised err"
  | (records) c d1 d2 where "translation_key (specific_instance e i) \<notin> seen_objects s"
      "get_or_create_from_instance e (specific_instance e i) d =
         (Inr (TranslationSource (translation_key (specific_instance e i)), c), d1)"
      "(if b then add_related e (specific_instance e i)
         (relatedobjectsegment_set e (TranslationSource (translation_key (specific_instance e i))))
         (s\<lparr>seen_objects := insert (translation_key (specific_instance e i)) (seen_objects s)\<rparr>) d1
        else (Done, s\<lparr>seen_objects := insert (translation_key (specific_instance e i)) (seen_objects s)\<rparr>, d1))
        = (Done, s', d2)"
      "set_up_translation_records e (user s') (TranslationSource (translation_key (specific_instance e i)))
         (target_locales s') d2 = (out, d')"
proof (cases "translation_key (specific_instance e i) \<in> seen_objects s")
  case True
  with run have "out = Done" "s' = s" "d' = d" by (simp_all add: create_translations_seen)
  with True seen show ?thesis by blast
next
  case False
  define inst where "inst = specific_instance e i"
  define s1 where "s1 = s\<lparr>seen_objects := insert (translation_key inst) (seen_objects s)\<rparr>"
  obtain r d1 where g: "get_or_create_from_instance e inst d = (r, d1)" by force
  have unf: "create_translations e i b s d =
     (case get_or_create_from_instance e inst d of
          (Inl err, db1) \<Rightarrow> (Raised err, s1, db1)
        | (Inr (src, created), db1) \<Rightarrow>
            (case (if b then add_related e inst (relatedobjectsegment_set e src) s1 db1
                   else (Done, s1, db1)) of
               (Raised err, self2, db2) \<Rightarrow> (Raised err, self2, db2)
             | (Done, self2, db2) \<Rightarrow>
                 (case set_up_translation_records e (user self2) src (target_locales self2) db2 of
                    (out, db3) \<Rightarrow> (out, self2, db3))))"
    using False unfolding inst_def s1_def
    by (subst create_translations.simps) (simp only: Let_def if_False)
  show ?thesis
  proof (cases r)
    case (Inl err)
    with run g have "out = Raised err" "s' = s1" "d' = d1" by (simp_all add: unf)
    with False g Inl source_raised show ?thesis unfolding inst_def s1_def by blast
  next
    case (Inr p)
    then obtain c where g': "get_or_create_from_instance e inst d =
         (Inr (TranslationSource (translation_key inst), c), d1)"
      using g get_or_create_from_instance_src by (cases p) fastforce
    obtain o2 s2 d2 where mid:
      "(if b then add_related e inst (relatedobjectsegment_set e (TranslationSource (translation_key inst))) s1 d1
        else (Done, s1, d1)) = (o2, s2, d2)"
      by (metis prod_cases3)
    show ?thesis
    proof (cases o2)
      case (Raised err)
      with mid have b: b by (auto split: if_splits)
      from run g' mid Raised have "out = Raised err" "s' = s2" "d' = d2" by (simp_all add: unf)
      with False g' mid Raised b related_raised show ?thesis unfolding inst_def s1_def by auto
    next
      case Done
      obtain o3 d3 where fin: "set_up_translation_records e (user s2)
          (TranslationSource (translation_key inst)) (target_locales s2) d2 = (o3, d3)"
        by force
      from run g' mid Done fin have "out = o3" "s' = s2" "d' = d3" by (simp_all add: unf)
      with False g' mid Done fin records show ?thesis unfolding inst_def s1_def by blast
    qed
  qed
qed

lemma add_related_Cons_cases [consumes 1, case_names unresolved related_raised continue]:
  assumes run: "add_related e inst (k # segs) s d = (out, s', d')"
  obtains
    (unresolved) "get_instance e k (locale_id inst) = None"
      "out = Raised UnresolvableReference" "s' = s" "d' = d"
  | (related_raised) ri err where "get_instance e k (locale_id inst) = Some ri"
      "create_translations e ri False s d = (Raised err, s', d')" "out = Raised err"
  | (continue) ri s1 d1 where "get_instance e k (locale_id inst) = Some ri"
      "create_translations e ri False s d = (Done, s1, d1)"
      "add_related e inst segs s1 d1 = (out, s', d')"
proof (cases "get_instance e k (locale_id inst)")
  case None
  with run have "out = Raised UnresolvableReference" "s' = s" "d' = d" by simp_all
  with None unresolved show ?thesis by blast
next
  case (Some ri)
  obtain o1 s1 d1 where c: "create_translations e ri False s d = (o1, s1, d1)"
    by (metis prod_cases3)
  show ?thesis
  proof (cases o1)
    case Done
    with run Some c have "add_related e inst segs s1 d1 = (out, s', d')" by simp
    with Some c Done continue show ?thesis by blast
  next
    case (Raised err)
    with run Some c have "out = Raised err" "s' = s1" "d' = d1" by simp_all
    with Some c Raised related_raised show ?thesis by blast
  qed
qed

lemma create_translations_rel:
  fixes R :: "outcome \<Rightarrow> translation_creator \<Rightarrow> database \<Rightarrow> translation_creator \<Rightarrow> database \<Rightarrow> bool"
  assumes refl: "\<And>s d. R Done s d s d"
    and trans: "\<And>out a da b db c dc. R Done a da b db \<Longrightarrow> R out b db c dc \<Longrightarrow> R out a da c dc"
    and src_step: "\<And>inst s d r d1. translation_key inst \<notin> seen_objects s \<Longrightarrow>
        get_or_create_from_instance e inst d = (r, d1) \<Longrightarrow>
        R (case r of Inl err \<Rightarrow> Raised err | Inr _ \<Rightarrow> Done) s d
          (s\<lparr>seen_objects := insert (translation_key inst) (seen_objects s)\<rparr>) d1"
    and rec_step: "\<And>src s d out d1. object_id src \<in> seen_objects s \<Longrightarrow>
        set_up_translation_records e (user s) src (target_locales s) d = (out, d1) \<Longrightarrow> R out s d s d1"
    and unres: "\<And>s d. R (Raised UnresolvableReference) s d s d"
    and seen_mono: "\<And>out s d s' d'. R out s d s' d' \<Longrightarrow> seen_objects s \<subseteq> seen_objects s'"
  shows create_translations_rel1: "create_translations e i b s d = (out, s', d') \<Longrightarrow> R out s d s' d'"
    and add_related_rel1: "add_related e inst segs s d = (out, s', d') \<Longrightarrow> R out s d s' d'"
proof -
  have body: "R out s d s' d'"
    if run: "create_translations e i b s d = (out, s', d')"
      and rel: "\<And>inst ks s1 d1 o2 s2 d2. b \<Longrightarrow>
          add_related e inst ks s1 d1 = (o2, s2, d2) \<Longrightarrow> R o2 s1 d1 s2 d2"
    for i b s d out s' d'
    using run
  proof (cases rule: create_translations_cases)
    case seen
    then show ?thesis using refl by simp
  next
    case (source_raised err)
    then show ?thesis using src_step[OF source_raised(1,2)] by simp
  next
    case (related_raised c d1 err)
    from src_step[OF related_raised(1,2)] rel[OF related_raised(3,4)] related_raised(5)
    show ?thesis using trans by auto
  next
    case (records c d1 d2)
    let ?s1 = "s\<lparr>seen_objects := insert (translation_key (specific_instance e i)) (seen_objects s)\<rparr>"
    have a: "R Done s d ?s1 d1" using src_step[OF records(1,2)] by simp
    have b: "R Done ?s1 d1 s' d2"
      using records(3) rel refl by (cases b) auto
    have "seen_objects ?s1 \<subseteq> seen_objects s'" using seen_mono[OF b] .
    then have "object_id (TranslationSource (translation_key (specific_instance e i))) \<in> seen_objects s'"
      by auto
    from rec_step[OF this records(4)] have c: "R out s' d2 s' d'" .
    show ?thesis using trans[OF trans[OF a b] c] .
  qed
  have c0: "R out s d s' d'" if "create_translations e i False s d = (out, s', d')" for i s d out s' d'
    using that by (rule body) simp
  show ar: "add_related e inst segs s d = (out, s', d') \<Longrightarrow> R out s d s' d'" for inst segs s d out s' d'
  proof (induction segs arbitrary: s d)
    case Nil
    then show ?case using refl by simp
  next
    case (Cons k segs)
    from Cons.prems show ?case
    proof (cases rule: add_related_Cons_cases)
      case unresolved
      then show ?thesis using unres by simp
    next
      case (related_raised ri err)
      then show ?thesis using c0 by simp
    next
      case (continue ri s1 d1)
      then show ?thesis using c0 Cons.IH trans by blast
    qed
  qed
  show "create_translations e i b s d = (out, s', d') \<Longrightarrow> R out s d s' d'"
    by (erule body) (rule ar)
qed

subsection \<open>What a call adds\<close>

lemma extends_refl [simp]: "extends d d"
  by (simp add: extends_def)

lemma extends_trans: "extends a b \<Longrightarrow> extends b c \<Longrightarrow> extends a c"
  by (auto simp: extends_def)

lemma new_refl [simp]: "new_sources d d = []" "new_translations d d = []" "new_events d d = []"
  by (simp_all add: new_sources_def new_translations_def new_events_def)

lemma new_trans:
  assumes "extends a b" "extends b c"
  shows "new_sources a c = new_sources a b @ new_sources b c"
    and "new_translations a c = new_translations a b @ new_translations b c"
    and "new_events a c = new_events a b @ new_events b c"
  using assms by (simp_all add: extends_def new_sources_def new_translations_def new_events_def added_trans)

lemma extends_tables:
  assumes "extends d d'"
  shows "source_objects d' = source_objects d @ new_sources d d'"
    and "translation_objects d' = translation_objects d @ new_translations d d'"
    and "journal d' = journal d @ new_events d d'"
  using assms by (auto simp: extends_def new_sources_def new_translations_def new_events_def prefix_def)

lemma extends_append:
  assumes "extends (d\<lparr>source_objects := source_objects d @ xs, translation_objects := translation_objects d @ ys,
            journal := journal d @ zs\<rparr>) d'"
  shows "extends d d'"
    and "new_sources d d' = xs @ new_sources (d\<lparr>source_objects := source_objects d @ xs,
            translation_objects := translation_objects d @ ys, journal := journal d @ zs\<rparr>) d'"
    and "new_translations d d' = ys @ new_translations (d\<lparr>source_objects := source_objects d @ xs,
            translation_objects := translation_objects d @ ys, journal := journal d @ zs\<rparr>) d'"
    and "new_events d d' = zs @ new_events (d\<lparr>source_objects := source_objects d @ xs,
            translation_objects := translation_objects d @ ys, journal := journal d @ zs\<rparr>) d'"
  using assms by (auto simp: extends_def new_sources_def new_translations_def new_events_def prefix_def added_def)

lemma created_sources_append [simp]: "created_sources (xs @ ys) = created_sources xs @ created_sources ys"
  by (induction xs rule: created_sources.induct) simp_all

lemma created_translations_append [simp]:
  "created_translations (xs @ ys) = created_translations xs @ created_translations ys"
  by (induction xs rule: created_translations.induct) simp_all

lemma records_extends:
  assumes "set_up_translation_records e u src ls d = (out, d')"
  shows "source_objects d' = source_objects d" and "extends d d'"
    and "new_sources d d' = []"
  using assms records_sources[OF assms] records_prefix[OF assms]
  by (auto simp: extends_def new_sources_def)

lemma records_journal:
  assumes "set_up_translation_records e u src ls d = (out, d')"
  shows "new_translations d d' = created_translations (new_events d d') \<and>
     created_sources (new_events d d') = [] \<and>
     (\<forall>ev \<in> set (new_events d d'). event_source ev = src)"
  using assms
proof (induction ls arbitrary: d)
  case Nil then show ?case by simp
next
  case (Cons l ls)
  from Cons.prems show ?case
  proof (cases rule: records_Cons_cases)
    case get_raised then show ?thesis by simp
  next
    case save_raised
    then show ?thesis by (simp add: new_translations_def new_events_def)
  next
    case existing
    then show ?thesis using Cons.IH by simp
  next
    case created
    let ?d1 = "d\<lparr>translation_objects := translation_objects d @ [Translation src l],
            journal := journal d @ [TranslationCreated (Translation src l), TargetSaved (Translation src l) u]\<rparr>"
    have d1: "?d1 = d\<lparr>source_objects := source_objects d @ [],
            translation_objects := translation_objects d @ [Translation src l],
            journal := journal d @ [TranslationCreated (Translation src l), TargetSaved (Translation src l) u]\<rparr>"
      by simp
    have ex: "extends ?d1 d'" using records_extends(2)[OF created(4)] .
    note ap = extends_append[OF ex[unfolded d1], folded d1]
    from Cons.IH[OF created(4)] show ?thesis unfolding ap by simp
  qed
qed

subsection \<open>The relations are kept by every call\<close>

lemma frame_refl [simp]: "frame s s"
  by (simp add: frame_def)

lemma frame_trans: "frame a b \<Longrightarrow> frame b c \<Longrightarrow> frame a c"
  by (auto simp: frame_def)

lemma consistent_refl [simp]: "consistent d d"
  by (simp add: consistent_def)

lemma consistent_trans:
  assumes ab: "consistent a b" and bc: "consistent b c"
  shows "consistent a c"
proof -
  have e: "extends a b" "extends b c" using ab bc by (simp_all add: consistent_def)
  note n = new_trans[OF e]
  note t = extends_tables[OF e(1)]
  have 1: "set (new_sources b c) \<inter> set (source_objects a) = {}"
    "set (new_sources b c) \<inter> set (new_sources a b) = {}"
    using bc t(1) by (auto simp: consistent_def)
  have 2: "set (new_translations b c) \<inter> set (translation_objects a) = {}"
    "set (new_translations b c) \<inter> set (new_translations a b) = {}"
    using bc t(2) by (auto simp: consistent_def)
  show ?thesis
    unfolding consistent_def n using ab bc 1 2 extends_trans[OF e]
    by (auto simp: consistent_def)
qed

lemma gated_refl [simp]: "gated u Done d d"
  by (simp add: gated_def)

lemma gated_trans:
  assumes ab: "consistent a b" and bc: "consistent b c"
    and g1: "gated u Done a b" and g2: "gated u out b c"
  shows "gated u out a c"
proof -
  have e: "extends a b" "extends b c" using ab bc by (simp_all add: consistent_def)
  note n = new_trans[OF e]
  note t = extends_tables[OF e(1)]
  have dis: "\<And>x. x \<in> set (new_translations a b) \<Longrightarrow> x \<notin> set (new_translations b c)"
    using bc t(2) by (auto simp: consistent_def)
  show ?thesis
    unfolding gated_def n
  proof (intro conjI allI impI)
    fix t u'
    show "count_list (new_events a b @ new_events b c) (TargetSaved t u')
        \<le> (if u' = u \<and> t \<in> set (new_translations a b @ new_translations b c) then 1 else 0)"
      using g1[unfolded gated_def, THEN conjunct2, rule_format, OF refl, of t u']
        g2[unfolded gated_def, THEN conjunct1, rule_format, of t u'] dis[of t]
      by (auto split: if_splits)
  next
    fix t u'
    assume "out = Done"
    then show "count_list (new_events a b @ new_events b c) (TargetSaved t u')
        = (if u' = u \<and> t \<in> set (new_translations a b @ new_translations b c) then 1 else 0)"
      using g1[unfolded gated_def, THEN conjunct2, rule_format, OF refl, of t u']
        g2[unfolded gated_def, THEN conjunct2, rule_format, of t u'] dis[of t]
      by (auto split: if_splits)
  qed
qed

lemma records_consistent:
  assumes run: "set_up_translation_records e u src ls d = (out, d')"
  shows "consistent d d'"
  using records_extends[OF run] records_journal[OF run] records_added[OF run]
  by (simp add: consistent_def new_translations_def)

lemma records_locales:
  assumes run: "set_up_translation_records e u src ls d = (out, d')"
  shows "set (new_translations d d') \<subseteq> Translation src ` set ls"
  using records_added[OF run] by (simp add: new_translations_def)

lemma records_gated:
  "set_up_translation_records e u src ls d = (out, d') \<Longrightarrow> gated u out d d'"
proof (induction ls arbitrary: d)
  case Nil then show ?case by simp
next
  case (Cons l ls)
  from Cons.prems show ?case
  proof (cases rule: records_Cons_cases)
    case get_raised then show ?thesis by (simp add: gated_def)
  next
    case save_raised
    then show ?thesis by (simp add: gated_def new_translations_def new_events_def)
  next
    case existing
    then show ?thesis using Cons.IH by simp
  next
    case created
    let ?d1 = "d\<lparr>translation_objects := translation_objects d @ [Translation src l],
            journal := journal d @ [TranslationCreated (Translation src l), TargetSaved (Translation src l) u]\<rparr>"
    have d1: "?d1 = d\<lparr>source_objects := source_objects d @ [],
            translation_objects := translation_objects d @ [Translation src l],
            journal := journal d @ [TranslationCreated (Translation src l), TargetSaved (Translation src l) u]\<rparr>"
      by simp
    have ex: "extends ?d1 d'" using records_extends(2)[OF created(4)] .
    note ap = extends_append[OF ex[unfolded d1], folded d1]
    have "Translation src l \<notin> set (new_translations ?d1 d')"
      using records_consistent[OF created(4)] by (auto simp: consistent_def)
    note nin = this
    note ih = Cons.IH[OF created(4), unfolded gated_def]
    show ?thesis
      unfolding gated_def ap
    proof (intro conjI allI impI)
      fix t u'
      show "count_list ([TranslationCreated (Translation src l), TargetSaved (Translation src l) u]
            @ new_events ?d1 d') (TargetSaved t u')
          \<le> (if u' = u \<and> t \<in> set ([Translation src l] @ new_translations ?d1 d') then 1 else 0)"
        using ih[THEN conjunct1, rule_format, of t u'] nin by (auto split: if_splits)
    next
      fix t u'
      assume "out = Done"
      then show "count_list ([TranslationCreated (Translation src l), TargetSaved (Translation src l) u]
            @ new_events ?d1 d') (TargetSaved t u')
          = (if u' = u \<and> t \<in> set ([Translation src l] @ new_translations ?d1 d') then 1 else 0)"
        using ih[THEN conjunct2, rule_format, of t u'] nin by (auto split: if_splits)
    qed
  qed
qed

lemma evolves_refl [simp]: "evolves Done s d s d"
  by (simp add: evolves_def)

lemma evolves_trans:
  assumes ab: "evolves Done a da b db" and bc: "evolves out b db c dc"
  shows "evolves out a da c dc"
proof -
  have c: "consistent da db" "consistent db dc" using ab bc by (simp_all add: evolves_def)
  then have e: "extends da db" "extends db dc" by (simp_all add: consistent_def)
  have f: "frame a b" "frame b c" using ab bc by (simp_all add: evolves_def)
  have u: "user b = user a" "target_locales b = target_locales a" using f by (simp_all add: frame_def)
  have g: "gated (user a) out da dc"
    using gated_trans[OF c, of "user a" out] ab bc u by (simp add: evolves_def)
  have l: "\<forall>t \<in> set (new_translations da dc). target_locale t \<in> set (target_locales a)"
    unfolding new_trans(2)[OF e] using ab bc u by (auto simp: evolves_def)
  show ?thesis
    unfolding evolves_def using frame_trans[OF f] consistent_trans[OF c] g l by simp
qed

lemma source_step:
  assumes g: "get_or_create_from_instance e inst d = (r, d1)"
  shows "extends d d1" and "new_translations d d1 = []"
    and "new_sources d d1 = created_sources (new_events d d1)"
    and "created_translations (new_events d d1) = []"
    and "set (new_sources d d1) \<subseteq> {TranslationSource (translation_key inst)}"
    and "distinct (new_sources d d1)"
    and "set (new_sources d d1) \<inter> set (source_objects d) = {}"
    and "\<forall>ev \<in> set (new_events d d1). ev = SourceCreated (TranslationSource (translation_key inst))"
    and "\<forall>x c. r = Inr (x, c) \<longrightarrow> x \<in> set (source_objects d1)"
  using g
  by (auto simp: get_or_create_from_instance_def Let_def extends_def new_sources_def
      new_translations_def new_events_def split: if_splits)

lemma source_step_evolves:
  assumes g: "get_or_create_from_instance e inst d = (r, d1)"
  shows "evolves (case r of Inl err \<Rightarrow> Raised err | Inr x \<Rightarrow> Done) s d
          (s\<lparr>seen_objects := insert (translation_key inst) (seen_objects s)\<rparr>) d1"
proof -
  note st = source_step[OF g]
  have c: "consistent d d1" unfolding consistent_def using st by simp
  have ga: "gated (user s) out d d1" for out
    unfolding gated_def st(2) using st(8) by (auto simp: count_list_0_iff)
  show ?thesis
    unfolding evolves_def using c ga st(2) by (auto simp: frame_def)
qed

lemma records_evolves:
  assumes run: "set_up_translation_records e (user s) src (target_locales s) d = (out, d')"
  shows "evolves out s d s d'"
  unfolding evolves_def
  using records_consistent[OF run] records_gated[OF run] records_locales[OF run]
  by auto

lemma unresolved_evolves: "evolves (Raised UnresolvableReference) s d s d"
  by (simp add: evolves_def gated_def)

lemma evolves_seen: "evolves out s d s' d' \<Longrightarrow> seen_objects s \<subseteq> seen_objects s'"
  by (simp add: evolves_def frame_def)

lemma create_translations_evolves:
  "create_translations e i b s d = (out, s', d') \<Longrightarrow> evolves out s d s' d'"
  apply (erule create_translations_rel1[where R = evolves and e = e, rotated -1])
  subgoal by (rule evolves_refl)
  subgoal by (erule evolves_trans)
  subgoal by (rule source_step_evolves)
  subgoal by (rule records_evolves)
  subgoal by (rule unresolved_evolves)
  subgoal by (rule evolves_seen)
  done

lemma add_related_evolves:
  "add_related e inst segs s d = (out, s', d') \<Longrightarrow> evolves out s d s' d'"
  apply (erule add_related_rel1[where R = evolves and e = e, rotated -1])
  subgoal by (rule evolves_refl)
  subgoal by (erule evolves_trans)
  subgoal by (rule source_step_evolves)
  subgoal by (rule records_evolves)
  subgoal by (rule unresolved_evolves)
  subgoal by (rule evolves_seen)
  done

lemma distinct_count_list: "distinct xs \<Longrightarrow> count_list xs x = (if x \<in> set xs then 1 else 0)"
  by (induction xs) auto

lemma count_created_translations:
  "count_list (created_translations evs) t = count_list evs (TranslationCreated t)"
  by (induction evs rule: created_translations.induct) auto

lemma consistent_new_translations:
  "consistent d d' \<Longrightarrow>
     t \<in> set (new_translations d d') \<longleftrightarrow> t \<in> set (translation_objects d') \<and> t \<notin> set (translation_objects d)"
  using extends_tables(2)[of d d'] by (auto simp: consistent_def)

subsection \<open>The seen objects\<close>

lemma create_translations_frame:
  "create_translations e i b s d = (out, s', d') \<Longrightarrow> frame s s'"
  by (drule create_translations_evolves) (simp add: evolves_def)

lemma add_related_frame:
  "add_related e inst segs s d = (out, s', d') \<Longrightarrow> frame s s'"
  by (drule add_related_evolves) (simp add: evolves_def)

lemma create_translations_marks:
  assumes "create_translations e i b s d = (out, s', d')"
  shows "translation_key (specific_instance e i) \<in> seen_objects s'"
  using assms
proof (cases rule: create_translations_cases)
  case (related_raised c d1 err)
  from add_related_frame[OF related_raised(4)] show ?thesis by (auto simp: frame_def)
next
  case (records c d1 d2)
  show ?thesis
  proof (cases b)
    case True
    with records(3) add_related_frame show ?thesis by (fastforce simp: frame_def)
  next
    case False
    with records(3) show ?thesis by auto
  qed
qed auto

lemma create_translations_False_seen:
  assumes "create_translations e i False s d = (out, s', d')"
  shows "seen_objects s' = insert (translation_key (specific_instance e i)) (seen_objects s)"
  using assms by (cases rule: create_translations_cases) auto

lemma add_related_seen:
  assumes "add_related e inst segs s d = (out, s', d')"
  shows "seen_objects s' \<subseteq> seen_objects s \<union> translation_key ` set (related_instances e inst segs)"
    and "out = Done \<Longrightarrow>
      seen_objects s' = seen_objects s \<union> translation_key ` set (related_instances e inst segs)"
  using assms
proof (induction segs arbitrary: s d)
  case Nil
  { case 1 then show ?case by simp }
  { case 2 then show ?case by simp }
next
  case (Cons k segs)
  { case 1
    from 1 show ?case
    proof (cases rule: add_related_Cons_cases)
      case unresolved then show ?thesis by simp
    next
      case (related_raised ri err)
      from create_translations_False_seen[OF related_raised(2)] related_raised(1) show ?thesis by auto
    next
      case (continue ri s1 d1)
      from create_translations_False_seen[OF continue(2)] Cons.IH(1)[OF continue(3)] continue(1)
      show ?thesis by auto
    qed }
  { case 2
    from 2(2) show ?case
    proof (cases rule: add_related_Cons_cases)
      case unresolved with 2(1) show ?thesis by simp
    next
      case (related_raised ri err) with 2(1) show ?thesis by simp
    next
      case (continue ri s1 d1)
      from create_translations_False_seen[OF continue(2)] Cons.IH(2)[OF 2(1) continue(3)] continue(1)
      show ?thesis by auto
    qed }
qed

lemma create_translations_True_seen:
  assumes "create_translations e i True s d = (Done, s', d')"
    and "translation_key (specific_instance e i) \<notin> seen_objects s"
  shows "seen_objects s' = insert (translation_key (specific_instance e i)) (seen_objects s) \<union>
     translation_key ` set (related_instances e (specific_instance e i)
       (relatedobjectsegment_set e (TranslationSource (translation_key (specific_instance e i)))))"
  using assms(1)
proof (cases rule: create_translations_cases)
  case seen
  with assms(2) show ?thesis by simp
next
  case (records c d1 d2)
  then show ?thesis using add_related_seen(2)[OF _ refl] by auto
qed auto

subsection \<open>What a call writes is about the objects it has seen\<close>

lemma owned_refl [simp]: "owned s d s d"
  by (simp add: owned_def)

lemma owned_trans:
  assumes "owned a da b db" "owned b db c dc" "frame a b" "frame b c" "extends da db" "extends db dc"
  shows "owned a da c dc"
  using assms unfolding owned_def new_trans(3)[OF assms(5,6)] frame_def by auto

lemma create_translations_False_owned:
  assumes run: "create_translations e i False s d = (out, s', d')"
  shows "owned s d s' d'"
  using run
proof (cases rule: create_translations_cases)
  case seen then show ?thesis by simp
next
  case (source_raised err)
  from source_step(8)[OF source_raised(2)] source_raised(1,4) show ?thesis
    by (auto simp: owned_def)
next
  case (related_raised c d1 err) then show ?thesis by simp
next
  case (records c d1 d2)
  let ?k = "translation_key (specific_instance e i)"
  let ?s1 = "s\<lparr>seen_objects := insert ?k (seen_objects s)\<rparr>"
  from records(3) have [simp]: "s' = ?s1" "d2 = d1" by simp_all
  have e1: "extends d d1" using source_step(1)[OF records(2)] .
  have e2: "extends d1 d'" using records_extends(2)[OF records(4)] by simp
  have "\<forall>ev \<in> set (new_events d d1). event_source ev = TranslationSource ?k"
    using source_step(8)[OF records(2)] by auto
  moreover have "\<forall>ev \<in> set (new_events d1 d'). event_source ev = TranslationSource ?k"
    using records_journal[OF records(4)] by simp
  ultimately show ?thesis
    unfolding owned_def new_trans(3)[OF e1 e2] using records(1) by auto
qed

lemma create_translations_extends:
  "create_translations e i b s d = (out, s', d') \<Longrightarrow> extends d d'"
  by (drule create_translations_evolves) (simp add: evolves_def consistent_def)

lemma add_related_extends:
  "add_related e inst segs s d = (out, s', d') \<Longrightarrow> extends d d'"
  by (drule add_related_evolves) (simp add: evolves_def consistent_def)

lemma add_related_owned:
  "add_related e inst segs s d = (out, s', d') \<Longrightarrow> owned s d s' d'"
proof (induction segs arbitrary: s d)
  case Nil then show ?case by simp
next
  case (Cons k segs)
  from Cons.prems show ?case
  proof (cases rule: add_related_Cons_cases)
    case unresolved then show ?thesis by simp
  next
    case (related_raised ri err)
    then show ?thesis by (simp add: create_translations_False_owned)
  next
    case (continue ri s1 d1)
    show ?thesis
      using owned_trans[OF create_translations_False_owned[OF continue(2)] Cons.IH[OF continue(3)]
          create_translations_frame[OF continue(2)] add_related_frame[OF continue(3)]
          create_translations_extends[OF continue(2)] add_related_extends[OF continue(3)]] .
  qed
qed

lemma create_translations_owned:
  assumes run: "create_translations e i b s d = (out, s', d')"
  shows "owned s d s' d'"
proof (cases b)
  case False
  with run show ?thesis by (simp add: create_translations_False_owned)
next
  case True
  let ?k = "translation_key (specific_instance e i)"
  let ?s1 = "s\<lparr>seen_objects := insert ?k (seen_objects s)\<rparr>"
  from run show ?thesis
  proof (cases rule: create_translations_cases)
    case seen then show ?thesis by simp
  next
    case (source_raised err)
    from source_step(8)[OF source_raised(2)] source_raised(1,4) show ?thesis
      by (auto simp: owned_def)
  next
    case (related_raised c d1 err)
    have e1: "extends d d1" using source_step(1)[OF related_raised(2)] .
    have e2: "extends d1 d'" using add_related_extends[OF related_raised(4)] .
    have f: "frame ?s1 s'" using add_related_frame[OF related_raised(4)] .
    have "\<forall>ev \<in> set (new_events d d1). event_source ev = TranslationSource ?k"
      using source_step(8)[OF related_raised(2)] by auto
    moreover have "owned ?s1 d1 s' d'" using add_related_owned[OF related_raised(4)] .
    ultimately show ?thesis
      unfolding owned_def new_trans(3)[OF e1 e2] using related_raised(1) f
      by (auto simp: frame_def)
  next
    case (records c d1 d2)
    from records(3) True have ar: "add_related e (specific_instance e i)
         (relatedobjectsegment_set e (TranslationSource ?k)) ?s1 d1 = (Done, s', d2)" by simp
    have e1: "extends d d1" using source_step(1)[OF records(2)] .
    have e2: "extends d1 d2" using add_related_extends[OF ar] .
    have e3: "extends d2 d'" using records_extends(2)[OF records(4)] .
    have f: "frame ?s1 s'" using add_related_frame[OF ar] .
    have "\<forall>ev \<in> set (new_events d d1). event_source ev = TranslationSource ?k"
      using source_step(8)[OF records(2)] by auto
    moreover have "owned ?s1 d1 s' d2" using add_related_owned[OF ar] .
    moreover have "\<forall>ev \<in> set (new_events d2 d'). event_source ev = TranslationSource ?k"
      using records_journal[OF records(4)] by simp
    ultimately show ?thesis
      unfolding owned_def new_trans(3)[OF extends_trans[OF e1 e2] e3] new_trans(3)[OF e1 e2]
      using records(1) f by (auto simp: frame_def)
  qed
qed

subsection \<open>Normal returns\<close>

lemma extends_mono:
  assumes "extends d d'"
  shows "set (source_objects d) \<subseteq> set (source_objects d')"
    and "set (translation_objects d) \<subseteq> set (translation_objects d')"
  using assms by (auto simp: extends_def dest: set_mono_prefix)

lemma source_step_Inr:
  "\<not> source_fails e inst \<Longrightarrow>
     \<exists>c d1. get_or_create_from_instance e inst d = (Inr (TranslationSource (translation_key inst), c), d1)"
  by (auto simp: get_or_create_from_instance_def Let_def)

lemma records_covers:
  "set_up_translation_records e u src ls d = (Done, d') \<Longrightarrow>
     \<forall>l \<in> set ls. Translation src l \<in> set (translation_objects d')"
proof (induction ls arbitrary: d)
  case Nil then show ?case by simp
next
  case (Cons l ls)
  from Cons.prems show ?case
  proof (cases rule: records_Cons_cases)
    case existing
    with Cons.IH[OF existing(3)] extends_mono(2)[OF records_extends(2)[OF existing(3)]]
    show ?thesis by auto
  next
    case created
    with Cons.IH[OF created(4)] extends_mono(2)[OF records_extends(2)[OF created(4)]]
    show ?thesis by auto
  qed simp_all
qed

lemma records_Done:
  assumes "\<forall>l \<in> set ls. \<not> translation_fails e src l \<and> \<not> save_target_fails e (Translation src l)"
  shows "\<exists>d'. set_up_translation_records e u src ls d = (Done, d')"
  using assms
proof (induction ls arbitrary: d)
  case Nil then show ?case by simp
next
  case (Cons l ls)
  then show ?case
    by (auto simp: get_or_create_def save_target_def Let_def)
qed

lemma covered_refl [simp]: "covered s d s d"
  by (simp add: covered_def)

lemma covered_trans:
  assumes "covered a da b db" "covered b db c dc" "frame a b" "frame b c" "extends db dc"
  shows "covered a da c dc"
proof -
  have "seen_objects c - seen_objects a \<subseteq> (seen_objects b - seen_objects a) \<union> (seen_objects c - seen_objects b)"
    by auto
  moreover have "target_locales b = target_locales a" using assms(3) by (simp add: frame_def)
  ultimately show ?thesis
    using assms(1,2) extends_mono[OF assms(5)] unfolding covered_def by (auto; blast)
qed

lemma create_translations_False_covered:
  assumes run: "create_translations e i False s d = (Done, s', d')"
  shows "covered s d s' d'"
  using run
proof (cases rule: create_translations_cases)
  case seen then show ?thesis by simp
next
  case (records c d1 d2)
  from records(3) have [simp]: "d2 = d1"
    "s' = s\<lparr>seen_objects := insert (translation_key (specific_instance e i)) (seen_objects s)\<rparr>"
    by simp_all
  have "TranslationSource (translation_key (specific_instance e i)) \<in> set (source_objects d1)"
    using source_step(9)[OF records(2)] by simp
  then have "TranslationSource (translation_key (specific_instance e i)) \<in> set (source_objects d')"
    using records_extends(1)[OF records(4)] by simp
  then show ?thesis
    using records_covers[OF records(4)] by (auto simp: covered_def)
qed simp_all

lemma add_related_covered:
  "add_related e inst segs s d = (Done, s', d') \<Longrightarrow> covered s d s' d'"
proof (induction segs arbitrary: s d)
  case Nil then show ?case by simp
next
  case (Cons k segs)
  from Cons.prems show ?case
  proof (cases rule: add_related_Cons_cases)
    case (continue ri s1 d1)
    show ?thesis
      using covered_trans[OF create_translations_False_covered[OF continue(2)] Cons.IH[OF continue(3)]
          create_translations_frame[OF continue(2)] add_related_frame[OF continue(3)]
          add_related_extends[OF continue(3)]] .
  qed simp_all
qed

lemma create_translations_covered:
  assumes run: "create_translations e i b s d = (Done, s', d')"
  shows "covered s d s' d'"
proof (cases b)
  case False
  with run show ?thesis by (simp add: create_translations_False_covered)
next
  case True
  let ?k = "translation_key (specific_instance e i)"
  let ?s1 = "s\<lparr>seen_objects := insert ?k (seen_objects s)\<rparr>"
  from run show ?thesis
  proof (cases rule: create_translations_cases)
    case seen then show ?thesis by simp
  next
    case (records c d1 d2)
    from records(3) True have ar: "add_related e (specific_instance e i)
         (relatedobjectsegment_set e (TranslationSource ?k)) ?s1 d1 = (Done, s', d2)" by simp
    have f: "frame ?s1 s'" using add_related_frame[OF ar] .
    have e2: "extends d1 d2" using add_related_extends[OF ar] .
    have e3: "extends d2 d'" using records_extends(2)[OF records(4)] .
    have "TranslationSource ?k \<in> set (source_objects d1)"
      using source_step(9)[OF records(2)] by simp
    then have src: "TranslationSource ?k \<in> set (source_objects d')"
      using extends_mono(1)[OF e2] extends_mono(1)[OF e3] by auto
    have tr: "\<forall>l \<in> set (target_locales s). Translation (TranslationSource ?k) l \<in> set (translation_objects d')"
      using records_covers[OF records(4)] f by (simp add: frame_def)
    have "covered ?s1 d1 s' d2" using add_related_covered[OF ar] .
    then show ?thesis
      using src tr extends_mono[OF e3] unfolding covered_def by (auto; blast)
  qed simp_all
qed

lemma create_translations_False_Done:
  assumes q: "quiet e (target_locales s)"
  shows "\<exists>s' d'. create_translations e i False s d = (Done, s', d')"
proof (cases "translation_key (specific_instance e i) \<in> seen_objects s")
  case True
  then show ?thesis by (simp add: create_translations_seen)
next
  case False
  let ?k = "translation_key (specific_instance e i)"
  obtain c d1 where g: "get_or_create_from_instance e (specific_instance e i) d =
      (Inr (TranslationSource ?k, c), d1)"
    using q source_step_Inr[of e "specific_instance e i" d] by (auto simp: quiet_def)
  obtain d' where r: "set_up_translation_records e (user s) (TranslationSource ?k) (target_locales s) d1 = (Done, d')"
    using records_Done[of "target_locales s" e "TranslationSource ?k" "user s" d1] q
    by (auto simp: quiet_def)
  show ?thesis
    using False g r by (simp add: create_translations.simps[of e i False s d])
qed

lemma add_related_Done:
  assumes q: "quiet e (target_locales s)" and r: "resolvable e inst segs"
  shows "\<exists>s' d'. add_related e inst segs s d = (Done, s', d')"
  using assms
proof (induction segs arbitrary: s d)
  case Nil then show ?case by simp
next
  case (Cons k segs)
  from Cons.prems(2) obtain ri where ri: "get_instance e k (locale_id inst) = Some ri"
    and rest: "resolvable e inst segs"
    by (auto simp: resolvable_def)
  obtain s1 d1 where c: "create_translations e ri False s d = (Done, s1, d1)"
    using create_translations_False_Done[OF Cons.prems(1)] by blast
  have "target_locales s1 = target_locales s"
    using create_translations_frame[OF c] by (simp add: frame_def)
  with Cons.IH[OF _ rest, of s1 d1] Cons.prems(1)
  obtain s' d' where "add_related e inst segs s1 d1 = (Done, s', d')" by auto
  with ri c show ?case by simp
qed

lemma create_translations_Done:
  assumes q: "quiet e (target_locales s)"
    and r: "resolvable e (specific_instance e i)
      (relatedobjectsegment_set e (TranslationSource (translation_key (specific_instance e i))))"
  shows "\<exists>s' d'. create_translations e i True s d = (Done, s', d')"
proof (cases "translation_key (specific_instance e i) \<in> seen_objects s")
  case True
  then show ?thesis by (simp add: create_translations_seen)
next
  case False
  let ?k = "translation_key (specific_instance e i)"
  let ?s1 = "s\<lparr>seen_objects := insert ?k (seen_objects s)\<rparr>"
  obtain c d1 where g: "get_or_create_from_instance e (specific_instance e i) d =
      (Inr (TranslationSource ?k, c), d1)"
    using q source_step_Inr[of e "specific_instance e i" d] by (auto simp: quiet_def)
  obtain s2 d2 where ar: "add_related e (specific_instance e i)
      (relatedobjectsegment_set e (TranslationSource ?k)) ?s1 d1 = (Done, s2, d2)"
    using add_related_Done[OF _ r, of ?s1 d1] q by auto
  have f: "user s2 = user s" "target_locales s2 = target_locales s"
    using add_related_frame[OF ar] by (simp_all add: frame_def)
  obtain d' where rr: "set_up_translation_records e (user s2) (TranslationSource ?k) (target_locales s2) d2 = (Done, d')"
    using records_Done[of "target_locales s2" e "TranslationSource ?k" "user s2" d2] q f
    by (auto simp: quiet_def)
  show ?thesis
    using False g ar rr by (simp add: create_translations.simps[of e i True s d])
qed

subsection \<open>Sources and the journal\<close>

lemma set_created_sources: "set (created_sources evs) = {x. SourceCreated x \<in> set evs}"
  by (induction evs rule: created_sources.induct) auto

lemma set_created_translations: "set (created_translations evs) = {t. TranslationCreated t \<in> set evs}"
  by (induction evs rule: created_translations.induct) auto

lemma create_translations_consistent:
  "create_translations e i b s d = (out, s', d') \<Longrightarrow> consistent d d'"
  by (drule create_translations_evolves) (simp add: evolves_def)

lemma consistentD:
  assumes "consistent d d'"
  shows "extends d d'"
    and "new_sources d d' = created_sources (new_events d d')"
    and "new_translations d d' = created_translations (new_events d d')"
    and "distinct (new_sources d d')"
    and "set (new_sources d d') \<inter> set (source_objects d) = {}"
    and "distinct (new_translations d d')"
    and "set (new_translations d d') \<inter> set (translation_objects d) = {}"
  using assms unfolding consistent_def by blast+

lemma consistent_new_sources:
  "consistent d d' \<Longrightarrow>
     x \<in> set (new_sources d d') \<longleftrightarrow> x \<in> set (source_objects d') \<and> x \<notin> set (source_objects d)"
  using extends_tables(1)[of d d'] by (auto simp: consistent_def)

lemma consistent_distinct_sources:
  assumes "consistent d d'" "distinct (source_objects d)"
  shows "distinct (source_objects d')"
  using assms extends_tables(1)[of d d'] by (auto simp: consistent_def)


lemma new_sources_owned:
  assumes c: "consistent d d'" and o: "owned s d s' d'" and x: "x \<in> set (new_sources d d')"
  shows "object_id x \<in> seen_objects s' - seen_objects s"
proof -
  from consistentD(2)[OF c] x have "SourceCreated x \<in> set (new_events d d')"
    by (simp add: set_created_sources)
  with o show ?thesis by (force simp: owned_def)
qed

lemma records_events:
  "set_up_translation_records e u src ls d = (out, d') \<Longrightarrow>
     \<forall>ev \<in> set (new_events d d').
        \<exists>l \<in> set ls. ev = TranslationCreated (Translation src l) \<or> ev = TargetSaved (Translation src l) u"
proof (induction ls arbitrary: d)
  case Nil then show ?case by simp
next
  case (Cons l ls)
  from Cons.prems show ?case
  proof (cases rule: records_Cons_cases)
    case get_raised then show ?thesis by simp
  next
    case save_raised
    then show ?thesis by (simp add: new_events_def)
  next
    case existing
    then show ?thesis using Cons.IH by auto
  next
    case created
    let ?d1 = "d\<lparr>translation_objects := translation_objects d @ [Translation src l],
            journal := journal d @ [TranslationCreated (Translation src l), TargetSaved (Translation src l) u]\<rparr>"
    have d1: "?d1 = d\<lparr>source_objects := source_objects d @ [],
            translation_objects := translation_objects d @ [Translation src l],
            journal := journal d @ [TranslationCreated (Translation src l), TargetSaved (Translation src l) u]\<rparr>"
      by simp
    have ex: "extends ?d1 d'" using records_extends(2)[OF created(4)] .
    note ap = extends_append[OF ex[unfolded d1], folded d1]
    from Cons.IH[OF created(4)] show ?thesis unfolding ap by auto
  qed
qed

subsection \<open>The walk over the subtree and the view\<close>

lemma walk_children_Cons_cases [consumes 1, case_names child_raised walk_raised continue]:
  assumes run: "walk_children e (c # rest) s d = (out, s', d')"
  obtains
    (child_raised) err where "create_translations e (page c) True s d = (Raised err, s', d')"
      "out = Raised err"
  | (walk_raised) s1 d1 err where "create_translations e (page c) True s d = (Done, s1, d1)"
      "numchild (page c) \<noteq> 0" "walk e c s1 d1 = (Raised err, s', d')" "out = Raised err"
  | (continue) s1 d1 s2 d2 where "create_translations e (page c) True s d = (Done, s1, d1)"
      "(if numchild (page c) \<noteq> 0 then walk e c s1 d1 else (Done, s1, d1)) = (Done, s2, d2)"
      "walk_children e rest s2 d2 = (out, s', d')"
proof -
  obtain o1 s1 d1 where c: "create_translations e (page c) True s d = (o1, s1, d1)"
    by (metis prod_cases3)
  show ?thesis
  proof (cases o1)
    case (Raised err)
    with run c have "out = Raised err" "s' = s1" "d' = d1" by simp_all
    with c Raised child_raised show ?thesis by blast
  next
    case Done
    obtain o2 s2 d2 where w:
      "(if numchild (page c) \<noteq> 0 then walk e c s1 d1 else (Done, s1, d1)) = (o2, s2, d2)"
      by (metis prod_cases3)
    show ?thesis
    proof (cases o2)
      case (Raised err)
      with w have n: "numchild (page c) \<noteq> 0" by (auto split: if_splits)
      from run c Done w Raised have "out = Raised err" "s' = s2" "d' = d2" by simp_all
      with c Done w Raised n walk_raised show ?thesis by auto
    next
      case Done2: Done
      from run c Done w Done2 have "walk_children e rest s2 d2 = (out, s', d')" by simp
      with c Done w Done2 continue show ?thesis by blast
    qed
  qed
qed

lemma walk_evolves:
  "walk e t s d = (out, s', d') \<Longrightarrow> evolves out s d s' d'"
  and walk_children_evolves:
  "walk_children e ts s d = (out, s', d') \<Longrightarrow> evolves out s d s' d'"
proof (induction e t s d and e ts s d arbitrary: out s' d' and out s' d'
    rule: walk_walk_children.induct)
  case (1 e current_page children translator db)
  then show ?case by simp
next
  case (2 e translator db)
  then show ?case by simp
next
  case (3 e child_page rest translator db)
  from "3.prems" show ?case
  proof (cases rule: walk_children_Cons_cases)
    case (child_raised err)
    then show ?thesis using create_translations_evolves by simp
  next
    case (walk_raised s1 d1 err)
    from "3.IH"(1)[OF walk_raised(1)[symmetric] refl refl walk_raised(2,3)]
      create_translations_evolves[OF walk_raised(1)] walk_raised(4)
    show ?thesis using evolves_trans by blast
  next
    case (continue s1 d1 s2 d2)
    have a: "evolves Done translator db s1 d1"
      using create_translations_evolves[OF continue(1)] .
    have b: "evolves Done s1 d1 s2 d2"
    proof (cases "numchild (page child_page) \<noteq> 0")
      case True
      with continue(2) have "walk e child_page s1 d1 = (Done, s2, d2)" by simp
      from "3.IH"(1)[OF continue(1)[symmetric] refl refl True this] show ?thesis .
    next
      case False
      with continue(2) show ?thesis by simp
    qed
    have c: "evolves out s2 d2 s' d'"
      using "3.IH"(2)[OF continue(1)[symmetric] refl refl continue(2)[symmetric] refl refl continue(3)] .
    show ?thesis using evolves_trans[OF evolves_trans[OF a b] c] .
  qed
qed

lemma cleaned_locales_subset:
  "set (cleaned_locales e inst pd) \<subseteq> set (locales pd) - {locale_id inst}"
  by (auto simp: cleaned_locales_def locales_queryset_def)

lemma run_creations_unfold:
  "run_creations e obj req d =
     (case create_translations e (page obj) True
        (TranslationCreator (request_user req) (cleaned_locales e (page obj) (POST req))) d of
        (Raised err, s1, d1) \<Rightarrow> (Raised err, s1, d1)
      | (Done, s1, d1) \<Rightarrow>
          (if is_page (page obj) \<and> include_subtree (POST req)
           then walk e obj s1 d1
           else (Done, s1, d1)))"
  by (simp add: run_creations_def Let_def split: prod.splits outcome.splits)

lemma run_creations_cases [consumes 1, case_names root_raised root_only subtree]:
  assumes "run_creations e obj req d = (out, s', d')"
  obtains
    (root_raised) err where
      "create_translations e (page obj) True
         (TranslationCreator (request_user req) (cleaned_locales e (page obj) (POST req))) d =
         (Raised err, s', d')" "out = Raised err"
  | (root_only)
      "create_translations e (page obj) True
         (TranslationCreator (request_user req) (cleaned_locales e (page obj) (POST req))) d =
         (Done, s', d')" "out = Done" "\<not> (is_page (page obj) \<and> include_subtree (POST req))"
  | (subtree) s1 d1 where
      "create_translations e (page obj) True
         (TranslationCreator (request_user req) (cleaned_locales e (page obj) (POST req))) d =
         (Done, s1, d1)" "walk e obj s1 d1 = (out, s', d')"
      "is_page (page obj)" "include_subtree (POST req)"
proof -
  let ?s = "TranslationCreator (request_user req) (cleaned_locales e (page obj) (POST req))"
  obtain o1 s1 d1 where c: "create_translations e (page obj) True ?s d = (o1, s1, d1)"
    by (metis prod_cases3)
  show ?thesis
  proof (cases o1)
    case (Raised err)
    with assms c have "out = Raised err" "s' = s1" "d' = d1"
      by (simp_all add: run_creations_unfold)
    with c Raised root_raised show ?thesis by blast
  next
    case Done
    show ?thesis
    proof (cases "is_page (page obj) \<and> include_subtree (POST req)")
      case False
      with assms c Done have "out = Done" "s' = s1" "d' = d1"
        by (simp_all add: run_creations_unfold)
      with c Done False root_only show ?thesis by blast
    next
      case True
      with assms c Done have "walk e obj s1 d1 = (out, s', d')"
        by (simp add: run_creations_unfold)
      with c Done True subtree show ?thesis by blast
    qed
  qed
qed

lemma run_creations_evolves:
  assumes "run_creations e obj req d = (out, s', d')"
  shows "evolves out
     (TranslationCreator (request_user req) (cleaned_locales e (page obj) (POST req))) d s' d'"
  using assms
proof (cases rule: run_creations_cases)
  case (root_raised err)
  with create_translations_evolves[OF root_raised(1)] show ?thesis by simp
next
  case root_only
  with create_translations_evolves[OF root_only(1)] show ?thesis by simp
next
  case (subtree s1 d1)
  from evolves_trans[OF create_translations_evolves[OF subtree(1)] walk_evolves[OF subtree(2)]]
  show ?thesis .
qed

lemma success_response_Redirect:
  "success_response e obj req = Inr resp \<Longrightarrow> resp = Redirect"
  by (auto simp: success_response_def split: if_splits sum.splits)

lemma submit_block_cases [consumes 1, case_names creation_raised response_raised responded]:
  assumes "submit_block e obj req d = (r, d')"
  obtains
    (creation_raised) err s' where
      "run_creations e obj req d = (Raised err, s', d')" "r = Inl err"
  | (response_raised) err s' where
      "run_creations e obj req d = (Done, s', d')" "success_response e obj req = Inl err"
      "r = Inl err"
  | (responded) s' where
      "run_creations e obj req d = (Done, s', d')" "success_response e obj req = Inr Redirect"
      "r = Inr Redirect"
proof -
  obtain out s1 d1 where c: "run_creations e obj req d = (out, s1, d1)"
    by (metis prod_cases3)
  show ?thesis
  proof (cases out)
    case (Raised err)
    with assms c have "r = Inl err" "d' = d1" by (simp_all add: submit_block_def)
    with c Raised creation_raised show ?thesis by blast
  next
    case Done
    show ?thesis
    proof (cases "success_response e obj req")
      case (Inl err)
      with assms c Done have "r = Inl err" "d' = d1" by (simp_all add: submit_block_def)
      with c Done Inl response_raised show ?thesis by blast
    next
      case (Inr resp)
      with assms c Done have "r = Inr resp" "d' = d1" by (simp_all add: submit_block_def)
      moreover from success_response_Redirect[OF Inr] have "resp = Redirect" .
      ultimately show ?thesis using c Done Inr responded by blast
    qed
  qed
qed

lemma submit_block_evolves:
  assumes "submit_block e obj req d = (r, d1)"
  shows "\<exists>out s'. evolves out
     (TranslationCreator (request_user req) (cleaned_locales e (page obj) (POST req))) d s' d1"
  using assms
proof (cases rule: submit_block_cases)
  case (creation_raised err s')
  from run_creations_evolves[OF creation_raised(1)] show ?thesis by blast
next
  case (response_raised err s')
  from run_creations_evolves[OF response_raised(1)] show ?thesis by blast
next
  case (responded s')
  from run_creations_evolves[OF responded(1)] show ?thesis by blast
qed

lemma post_cases [consumes 1, case_names invalid rolled_back committed]:
  assumes "post e obj req d = (r, d')"
  obtains
    (invalid) "\<not> is_valid e (page obj) (POST req)" "r = Inr RenderForm" "d' = d"
  | (rolled_back) err d1 where "is_valid e (page obj) (POST req)"
      "submit_block e obj req d = (Inl err, d1)" "r = Inl err" "d' = d"
  | (committed) resp where "is_valid e (page obj) (POST req)"
      "submit_block e obj req d = (Inr resp, d')" "r = Inr resp"
proof (cases "is_valid e (page obj) (POST req)")
  case False
  with assms have "r = Inr RenderForm" "d' = d" by (simp_all add: post_def)
  with False invalid show ?thesis by blast
next
  case True
  obtain r1 d1 where b: "submit_block e obj req d = (r1, d1)" by force
  show ?thesis
  proof (cases r1)
    case (Inl err)
    with assms True b have "r = Inl err" "d' = d" by (simp_all add: post_def atomic_def)
    with True b Inl rolled_back show ?thesis by blast
  next
    case (Inr resp)
    with assms True b have "r = Inr resp" "d' = d1" by (simp_all add: post_def atomic_def)
    with True b Inr committed show ?thesis by blast
  qed
qed

lemma submit_block_response:
  assumes "submit_block e obj req d = (Inr resp, d')"
  shows "resp = Redirect"
  using assms by (cases rule: submit_block_cases) simp_all

subsection \<open>Running again on the database that a run has left\<close>









lemma walk_extends:
  "walk e t s d = (out, s', d') \<Longrightarrow> extends d d'"
  by (drule walk_evolves) (simp add: evolves_def consistent_def)

lemma walk_children_extends:
  "walk_children e ts s d = (out, s', d') \<Longrightarrow> extends d d'"
  by (drule walk_children_evolves) (simp add: evolves_def consistent_def)

lemma walk_frame:
  "walk e t s d = (out, s', d') \<Longrightarrow> frame s s'"
  by (drule walk_evolves) (simp add: evolves_def)

lemma walk_children_frame:
  "walk_children e ts s d = (out, s', d') \<Longrightarrow> frame s s'"
  by (drule walk_children_evolves) (simp add: evolves_def)




subsection \<open>Counting the translations of an object\<close>

lemma length_filter_card:
  "distinct xs \<Longrightarrow> length (filter P xs) = card {x \<in> set xs. P x}"
  using distinct_card[of "filter P xs"] by simp

lemma fan_out_count:
  assumes c: "consistent d d'"
    and loc: "\<forall>t \<in> set (new_translations d d'). target_locale t \<in> set ls"
    and cov: "\<forall>l \<in> set ls. Translation src l \<in> set (translation_objects d')"
    and dl: "distinct ls"
  shows "length (filter (\<lambda>t. source t = src) (new_translations d d')) =
           length (filter (\<lambda>l. Translation src l \<notin> set (translation_objects d)) ls)"
proof -
  note m = consistent_new_translations[OF c]
  have "{t \<in> set (new_translations d d'). source t = src} =
      Translation src ` {l \<in> set ls. Translation src l \<notin> set (translation_objects d)}"
  proof (intro set_eqI iffI)
    fix t assume "t \<in> {t \<in> set (new_translations d d'). source t = src}"
    then have t: "t \<in> set (new_translations d d')" "source t = src" by simp_all
    have "t = Translation (source t) (target_locale t)" by simp
    with t(2) have "t = Translation src (target_locale t)" by simp
    moreover have "target_locale t \<in> set ls" using loc t(1) by simp
    moreover have "t \<notin> set (translation_objects d)" using m[of t] t(1) by simp
    ultimately show "t \<in> Translation src ` {l \<in> set ls. Translation src l \<notin> set (translation_objects d)}"
      by force
  next
    fix t assume "t \<in> Translation src ` {l \<in> set ls. Translation src l \<notin> set (translation_objects d)}"
    then obtain l where l: "t = Translation src l" "l \<in> set ls" "Translation src l \<notin> set (translation_objects d)"
      by auto
    with cov m[of t] show "t \<in> {t \<in> set (new_translations d d'). source t = src}" by simp
  qed
  moreover have "card (Translation src ` {l \<in> set ls. Translation src l \<notin> set (translation_objects d)})
      = card {l \<in> set ls. Translation src l \<notin> set (translation_objects d)}"
    by (intro card_image) (simp add: inj_on_def)
  ultimately show ?thesis
    using length_filter_card[OF consistentD(6)[OF c], of "\<lambda>t. source t = src"]
      length_filter_card[OF dl, of "\<lambda>l. Translation src l \<notin> set (translation_objects d)"]
    by simp
qed

lemma fresh_root_translations:
  assumes c: "consistent d d'"
    and fresh: "\<forall>l. Translation src l \<notin> set (translation_objects d)"
  shows "filter (\<lambda>t. source t = src) (translation_objects d') =
           filter (\<lambda>t. source t = src) (new_translations d d')"
proof -
  have "\<forall>t \<in> set (translation_objects d). source t \<noteq> src"
  proof
    fix t assume t: "t \<in> set (translation_objects d)"
    have "t = Translation (source t) (target_locale t)" by simp
    with t fresh show "source t \<noteq> src" by metis
  qed
  then have 1: "filter (\<lambda>t. source t = src) (translation_objects d) = []"
    by (simp add: filter_empty_conv)
  have 2: "translation_objects d' = translation_objects d @ new_translations d d'"
    using extends_tables(2)[OF consistentD(1)[OF c]] .
  show ?thesis
    by (subst 2) (simp add: 1)
qed

lemma atmost_one_new_source:
  "consistent d d' \<Longrightarrow> count_list (new_sources d d') x \<le> 1"
  using distinct_count_list[OF consistentD(4), of d d' x] by simp

lemma run_creations_root_covered:
  assumes b: "run_creations e obj req d = (Done, s', d')"
  shows "\<forall>l \<in> set (cleaned_locales e (page obj) (POST req)).
     Translation (TranslationSource (translation_key (specific_instance e (page obj)))) l
       \<in> set (translation_objects d')"
proof -
  let ?s = "TranslationCreator (request_user req) (cleaned_locales e (page obj) (POST req))"
  let ?k = "translation_key (specific_instance e (page obj))"
  have "\<exists>s1 d1. create_translations e (page obj) True ?s d = (Done, s1, d1) \<and> extends d1 d'"
    using b
  proof (cases rule: run_creations_cases)
    case root_only
    then show ?thesis by (auto simp: extends_def)
  next
    case (subtree s1 d1)
    with walk_extends[OF subtree(2)] show ?thesis by blast
  qed simp
  then obtain s1 d1 where c: "create_translations e (page obj) True ?s d = (Done, s1, d1)"
    and e1: "extends d1 d'" by blast
  have "?k \<in> seen_objects s1 - seen_objects ?s"
    using create_translations_marks[OF c] by (simp add: TranslationCreator_def)
  with create_translations_covered[OF c]
  have "\<forall>l \<in> set (cleaned_locales e (page obj) (POST req)).
     Translation (TranslationSource ?k) l \<in> set (translation_objects d1)"
    by (auto simp: covered_def TranslationCreator_def)
  with extends_mono(2)[OF e1] show ?thesis by blast
qed

lemma submit_block_root_covered:
  assumes b: "submit_block e obj req d = (Inr Redirect, d')"
  shows "\<forall>l \<in> set (cleaned_locales e (page obj) (POST req)).
     Translation (TranslationSource (translation_key (specific_instance e (page obj)))) l
       \<in> set (translation_objects d')"
  using b
proof (cases rule: submit_block_cases)
  case (responded s')
  from run_creations_root_covered[OF responded(1)] show ?thesis .
qed simp_all

lemma distinct_cleaned_locales:
  "distinct (all_locales e) \<Longrightarrow> distinct (cleaned_locales e inst pd)"
  by (simp add: cleaned_locales_def locales_queryset_def)

subsection \<open>A walk that returns\<close>

lemma walk_rel:
  fixes R :: "translation_creator \<Rightarrow> database \<Rightarrow> translation_creator \<Rightarrow> database \<Rightarrow> bool"
  assumes r_refl: "\<And>s d. R s d s d"
    and r_trans: "\<And>a da b db c dc. R a da b db \<Longrightarrow> R b db c dc \<Longrightarrow>
        frame a b \<Longrightarrow> frame b c \<Longrightarrow> extends da db \<Longrightarrow> extends db dc \<Longrightarrow> R a da c dc"
    and step: "\<And>i s d s' d'. create_translations e i True s d = (Done, s', d') \<Longrightarrow> R s d s' d'"
  shows walk_rel1: "walk e t s d = (Done, s', d') \<Longrightarrow> R s d s' d'"
    and walk_children_rel1: "walk_children e ts s d = (Done, s', d') \<Longrightarrow> R s d s' d'"
proof -
  have "(walk e t s d = (Done, s', d') \<longrightarrow> R s d s' d')" and
    "(walk_children e ts s d = (Done, s', d') \<longrightarrow> R s d s' d')"
    using step
  proof (induction e t s d and e ts s d arbitrary: s' d' and s' d'
      rule: walk_walk_children.induct)
    case (1 e current_page children translator db)
    then show ?case by simp
  next
    case (2 e translator db)
    then show ?case by (simp add: r_refl)
  next
    case (3 e child_page rest translator db)
    note st = "3.prems"
    show ?case
    proof
      assume "walk_children e (child_page # rest) translator db = (Done, s', d')"
      then show "R translator db s' d'"
      proof (cases rule: walk_children_Cons_cases)
        case (continue s1 d1 s2 d2)
        have a: "R translator db s1 d1" using st[OF continue(1)] .
        note fa = create_translations_frame[OF continue(1)]
        note ea = create_translations_extends[OF continue(1)]
        have b: "R s1 d1 s2 d2 \<and> frame s1 s2 \<and> extends d1 d2"
        proof (cases "numchild (page child_page) \<noteq> 0")
          case True
          with continue(2) have w: "walk e child_page s1 d1 = (Done, s2, d2)" by simp
          have "walk e child_page s1 d1 = (Done, s2, d2) \<longrightarrow> R s1 d1 s2 d2"
            by (rule "3.IH"(1)[OF continue(1)[symmetric] refl refl True]) (rule st)
          with w walk_frame[OF w] walk_extends[OF w]
          show ?thesis by simp
        next
          case False
          with continue(2) show ?thesis by (simp add: r_refl frame_def)
        qed
        have "walk_children e rest s2 d2 = (Done, s', d') \<longrightarrow> R s2 d2 s' d'"
          by (rule "3.IH"(2)[OF continue(1)[symmetric] refl refl continue(2)[symmetric] refl refl])
            (rule st)
        with continue(3) have c: "R s2 d2 s' d'" by simp
        note fc = walk_children_frame[OF continue(3)]
        note ec = walk_children_extends[OF continue(3)]
        have ab: "R translator db s2 d2"
          using r_trans[OF a conjunct1[OF b] fa] b ea by blast
        have "frame translator s2" using fa b by (auto simp: frame_def)
        moreover have "extends db d2" using ea b extends_trans by blast
        ultimately show ?thesis using r_trans[OF ab c _ fc _ ec] by blast
      qed simp_all
    qed
  qed
  then show "walk e t s d = (Done, s', d') \<Longrightarrow> R s d s' d'"
    and "walk_children e ts s d = (Done, s', d') \<Longrightarrow> R s d s' d'" by blast+
qed


lemma walk_covered:
  "walk e t s d = (Done, s', d') \<Longrightarrow> covered s d s' d'"
  apply (erule walk_rel1[where R = covered and e = e, rotated -1])
  subgoal by (rule covered_refl)
  subgoal by (rule covered_trans)
  subgoal by (rule create_translations_covered)
  done

lemma run_creations_covered:
  assumes "run_creations e obj req d = (Done, s', d')"
  shows "covered (TranslationCreator (request_user req) (cleaned_locales e (page obj) (POST req)))
           d s' d'"
  using assms
proof (cases rule: run_creations_cases)
  case root_only
  from create_translations_covered[OF root_only(1)] show ?thesis .
next
  case (subtree s1 d1)
  from covered_trans[OF create_translations_covered[OF subtree(1)] walk_covered[OF subtree(2)]
      create_translations_frame[OF subtree(1)] walk_frame[OF subtree(2)] walk_extends[OF subtree(2)]]
  show ?thesis .
qed simp

subsection \<open>A call that returns has met no failure\<close>

lemma unfailed_refl [simp]: "unfailed e s s"
  by (simp add: unfailed_def)

lemma unfailed_trans:
  assumes "unfailed e a b" "unfailed e b c" "frame a b"
  shows "unfailed e a c"
proof -
  have "seen_objects c - seen_objects a \<subseteq> (seen_objects b - seen_objects a) \<union> (seen_objects c - seen_objects b)"
    by auto
  moreover have "target_locales b = target_locales a" using assms(3) by (simp add: frame_def)
  ultimately show ?thesis
    using assms(1,2) unfolding unfailed_def by (auto; blast)
qed

lemma records_unfailed:
  "set_up_translation_records e u src ls d = (Done, d') \<Longrightarrow>
     \<forall>l \<in> set ls. \<not> translation_fails e src l"
proof (induction ls arbitrary: d)
  case Nil then show ?case by simp
next
  case (Cons l ls)
  from Cons.prems show ?case
  proof (cases rule: records_Cons_cases)
    case existing
    with Cons.IH[OF existing(3)] show ?thesis by simp
  next
    case created
    with Cons.IH[OF created(4)] show ?thesis by simp
  qed simp_all
qed

lemma source_step_unfailed:
  "get_or_create_from_instance e inst d = (Inr x, d1) \<Longrightarrow> \<not> source_fails e inst"
  by (auto simp: get_or_create_from_instance_def split: if_splits)

lemma create_translations_False_unfailed:
  assumes run: "create_translations e i False s d = (Done, s', d')"
  shows "unfailed e s s'"
  using run
proof (cases rule: create_translations_cases)
  case seen then show ?thesis by simp
next
  case (records c d1 d2)
  let ?k = "translation_key (specific_instance e i)"
  from records(3) have s': "s' = s\<lparr>seen_objects := insert ?k (seen_objects s)\<rparr>"
    by simp
  have src: "\<not> source_fails e (specific_instance e i)"
    using source_step_unfailed[OF records(2)] .
  have "\<forall>l \<in> set (target_locales s'). \<not> translation_fails e (TranslationSource ?k) l"
    using records_unfailed[OF records(4)] .
  with s' have tr: "\<forall>l \<in> set (target_locales s). \<not> translation_fails e (TranslationSource ?k) l"
    by simp
  show ?thesis
    unfolding unfailed_def using s' src tr by auto
qed simp_all

lemma add_related_unfailed:
  "add_related e inst segs s d = (Done, s', d') \<Longrightarrow> unfailed e s s'"
proof (induction segs arbitrary: s d)
  case Nil then show ?case by simp
next
  case (Cons k segs)
  from Cons.prems show ?case
  proof (cases rule: add_related_Cons_cases)
    case (continue ri s1 d1)
    show ?thesis
      using unfailed_trans[OF create_translations_False_unfailed[OF continue(2)]
          Cons.IH[OF continue(3)] create_translations_frame[OF continue(2)]] .
  qed simp_all
qed

lemma create_translations_unfailed:
  assumes run: "create_translations e i b s d = (Done, s', d')"
  shows "unfailed e s s'"
proof (cases b)
  case False
  with run show ?thesis by (simp add: create_translations_False_unfailed)
next
  case True
  let ?k = "translation_key (specific_instance e i)"
  let ?s1 = "s\<lparr>seen_objects := insert ?k (seen_objects s)\<rparr>"
  from run show ?thesis
  proof (cases rule: create_translations_cases)
    case seen then show ?thesis by simp
  next
    case (records c d1 d2)
    from records(3) True have ar: "add_related e (specific_instance e i)
         (relatedobjectsegment_set e (TranslationSource ?k)) ?s1 d1 = (Done, s', d2)" by simp
    have f: "frame ?s1 s'" using add_related_frame[OF ar] .
    have src: "\<not> source_fails e (specific_instance e i)"
      using source_step_unfailed[OF records(2)] .
    have tr: "\<forall>l \<in> set (target_locales s). \<not> translation_fails e (TranslationSource ?k) l"
      using records_unfailed[OF records(4)] f by (simp add: frame_def)
    have "unfailed e ?s1 s'" using add_related_unfailed[OF ar] .
    then show ?thesis
      using src tr unfolding unfailed_def by (auto; blast)
  qed simp_all
qed

lemma walk_unfailed:
  "walk e t s d = (Done, s', d') \<Longrightarrow> unfailed e s s'"
  apply (erule walk_rel1[where R = "\<lambda>s d s' d'. unfailed e s s'" and e = e, rotated -1])
  subgoal by (rule unfailed_refl)
  subgoal by (erule unfailed_trans)
  subgoal by (rule create_translations_unfailed)
  done

lemma run_creations_unfailed:
  assumes "run_creations e obj req d = (Done, s', d')"
  shows "unfailed e (TranslationCreator (request_user req) (cleaned_locales e (page obj) (POST req))) s'"
  using assms
proof (cases rule: run_creations_cases)
  case root_only
  from create_translations_unfailed[OF root_only(1)] show ?thesis .
next
  case (subtree s1 d1)
  from unfailed_trans[OF create_translations_unfailed[OF subtree(1)] walk_unfailed[OF subtree(2)]
      create_translations_frame[OF subtree(1)]]
  show ?thesis .
qed simp


subsection \<open>The tasks that were initialised\<close>

lemma honest_refl [simp]: "honest e d d"
  by (simp add: honest_def)

lemma honest_trans:
  assumes "honest e a b" "honest e b c" "extends a b" "extends b c"
  shows "honest e a c"
  using assms(1,2) new_trans(3)[OF assms(3,4)] by (auto simp: honest_def)

lemma source_step_honest:
  assumes "get_or_create_from_instance e inst d = (r, d1)"
  shows "honest e d d1"
  using source_step(8)[OF assms] by (auto simp: honest_def)

lemma records_honest:
  "set_up_translation_records e u src ls d = (out, d') \<Longrightarrow> honest e d d'"
proof (induction ls arbitrary: d)
  case Nil then show ?case by simp
next
  case (Cons l ls)
  from Cons.prems show ?case
  proof (cases rule: records_Cons_cases)
    case get_raised then show ?thesis by simp
  next
    case save_raised
    then show ?thesis by (simp add: honest_def new_events_def added_def)
  next
    case existing
    then show ?thesis using Cons.IH by simp
  next
    case created
    let ?d1 = "d\<lparr>translation_objects := translation_objects d @ [Translation src l],
            journal := journal d @ [TranslationCreated (Translation src l), TargetSaved (Translation src l) u]\<rparr>"
    have d1: "?d1 = d\<lparr>source_objects := source_objects d @ [],
            translation_objects := translation_objects d @ [Translation src l],
            journal := journal d @ [TranslationCreated (Translation src l), TargetSaved (Translation src l) u]\<rparr>"
      by simp
    have ex: "extends ?d1 d'" using records_extends(2)[OF created(4)] .
    note ap = extends_append[OF ex[unfolded d1], folded d1]
    have "honest e ?d1 d'" using Cons.IH[OF created(4)] .
    with created(3) show ?thesis
      unfolding honest_def ap(4) by auto
  qed
qed

lemma create_translations_honest:
  "create_translations e i b s d = (out, s', d') \<Longrightarrow> honest e d d'"
proof -
  assume run: "create_translations e i b s d = (out, s', d')"
  have "seen_objects s \<subseteq> seen_objects s' \<and> extends d d' \<and> honest e d d'"
    apply (rule create_translations_rel1[where
          R = "\<lambda>out s d s' d'. seen_objects s \<subseteq> seen_objects s' \<and> extends d d' \<and> honest e d d'"
          and e = e, OF _ _ _ _ _ _ run])
    subgoal by simp
    subgoal using extends_trans honest_trans by blast
    subgoal using source_step(1) source_step_honest by auto
    subgoal using records_extends(2) records_honest by auto
    subgoal by simp
    subgoal by simp
    done
  then show ?thesis by simp
qed

lemma walk_honest:
  "walk e t s d = (Done, s', d') \<Longrightarrow> honest e d d'"
  apply (erule walk_rel1[where R = "\<lambda>s d s' d'. honest e d d'" and e = e, rotated -1])
  subgoal by (rule honest_refl)
  subgoal by (erule honest_trans)
  subgoal by (rule create_translations_honest)
  done

lemma run_creations_honest:
  assumes "run_creations e obj req d = (Done, s', d')"
  shows "honest e d d'"
  using assms
proof (cases rule: run_creations_cases)
  case root_only
  from create_translations_honest[OF root_only(1)] show ?thesis .
next
  case (subtree s1 d1)
  from honest_trans[OF create_translations_honest[OF subtree(1)] walk_honest[OF subtree(2)]
      create_translations_extends[OF subtree(1)] walk_extends[OF subtree(2)]]
  show ?thesis .
qed simp

lemma run_creations_saved:
  assumes run: "run_creations e obj req d = (Done, s', d')"
    and t: "t \<in> set (new_translations d d')"
  shows "\<not> save_target_fails e t"
proof -
  let ?u = "request_user req"
  have "gated ?u Done d d'"
    using run_creations_evolves[OF run] by (simp add: evolves_def TranslationCreator_def)
  then have "count_list (new_events d d') (TargetSaved t ?u) = 1"
    using t by (simp add: gated_def)
  then have "TargetSaved t ?u \<in> set (new_events d d')"
    using count_list_0_iff[of "new_events d d'" "TargetSaved t ?u"] by auto
  with run_creations_honest[OF run] show ?thesis by (auto simp: honest_def)
qed

subsection \<open>A run in which nothing fails\<close>

lemma walk_Done:
  "quiet e (target_locales s) \<Longrightarrow> \<forall>k l. get_instance e k l \<noteq> None \<Longrightarrow>
     \<exists>s' d'. walk e t s d = (Done, s', d')"
  and walk_children_Done:
  "quiet e (target_locales s) \<Longrightarrow> \<forall>k l. get_instance e k l \<noteq> None \<Longrightarrow>
     \<exists>s' d'. walk_children e ts s d = (Done, s', d')"
proof (induction e t s d and e ts s d rule: walk_walk_children.induct)
  case (1 e current_page children translator db)
  then show ?case by simp
next
  case (2 e translator db)
  then show ?case by simp
next
  case (3 e child_page rest translator db)
  note q = "3.prems"(1) and r = "3.prems"(2)
  have "resolvable e (specific_instance e (page child_page))
      (relatedobjectsegment_set e (TranslationSource (translation_key (specific_instance e (page child_page)))))"
    using r by (simp add: resolvable_def)
  from create_translations_Done[OF q this]
  obtain s1 d1 where c: "create_translations e (page child_page) True translator db = (Done, s1, d1)"
    by blast
  have q1: "quiet e (target_locales s1)"
    using q create_translations_frame[OF c] by (simp add: frame_def)
  have "\<exists>s2 d2. (if numchild (page child_page) \<noteq> 0 then walk e child_page s1 d1 else (Done, s1, d1))
      = (Done, s2, d2)"
  proof (cases "numchild (page child_page) \<noteq> 0")
    case True
    from "3.IH"(1)[OF c[symmetric] refl refl True q1 r] True show ?thesis by simp
  next
    case False
    then show ?thesis by simp
  qed
  then obtain s2 d2 where
    w: "(if numchild (page child_page) \<noteq> 0 then walk e child_page s1 d1 else (Done, s1, d1))
      = (Done, s2, d2)" by blast
  have "frame s1 s2"
  proof (cases "numchild (page child_page) \<noteq> 0")
    case True
    with w walk_frame show ?thesis by simp
  next
    case False
    with w show ?thesis by (simp add: frame_def)
  qed
  with q1 have q2: "quiet e (target_locales s2)" by (simp add: frame_def)
  from "3.IH"(2)[OF c[symmetric] refl refl w[symmetric] refl refl q2 r]
  obtain s' d' where "walk_children e rest s2 d2 = (Done, s', d')" by blast
  with c w show ?case by simp
qed

lemma run_creations_Done:
  assumes q: "quiet e (cleaned_locales e (page obj) (POST req))"
    and r: "\<forall>k l. get_instance e k l \<noteq> None"
  shows "\<exists>s' d'. run_creations e obj req d = (Done, s', d')"
proof -
  let ?s = "TranslationCreator (request_user req) (cleaned_locales e (page obj) (POST req))"
  have q0: "quiet e (target_locales ?s)" using q by (simp add: TranslationCreator_def)
  have "resolvable e (specific_instance e (page obj))
      (relatedobjectsegment_set e (TranslationSource (translation_key (specific_instance e (page obj)))))"
    using r by (simp add: resolvable_def)
  from create_translations_Done[OF q0 this]
  obtain s1 d1 where c: "create_translations e (page obj) True ?s d = (Done, s1, d1)" by blast
  have q1: "quiet e (target_locales s1)"
    using q0 create_translations_frame[OF c] by (simp add: frame_def)
  from walk_Done[OF q1 r] obtain s2 d2 where "walk e obj s1 d1 = (Done, s2, d2)" by blast
  with c show ?thesis by (simp add: run_creations_unfold)
qed

lemma run_creations_root_source:
  assumes "source_fails e (specific_instance e (page obj))"
  shows "run_creations e obj req d =
     (Raised StorageFailure,
      (TranslationCreator (request_user req) (cleaned_locales e (page obj) (POST req)))
        \<lparr>seen_objects := {translation_key (specific_instance e (page obj))}\<rparr>, d)"
  using assms
  by (simp add: run_creations_unfold create_translations.simps[of e "page obj" True]
      TranslationCreator_def get_or_create_from_instance_def Let_def)

lemma post_valid:
  assumes "is_valid e (page obj) (POST req)" and "run_creations e obj req d = (out, s1, d1)"
  shows "post e obj req d =
     (case out of
        Raised err \<Rightarrow> (Inl err, d)
      | Done \<Rightarrow> (case success_response e obj req of
                   Inl err \<Rightarrow> (Inl err, d)
                 | Inr r \<Rightarrow> (Inr r, d1)))"
  using assms
  by (simp add: post_def atomic_def submit_block_def split: outcome.splits sum.splits)

section \<open>The claims\<close>

text \<open>
  C1. Whatever the related objects of the objects are (so also when A has the related
  object B and B has the related object A), \<open>create_translations\<close> on A with a new
  translator returns, and returns normally when no repository call raises and the
  related object segments of A resolve; A is marked as seen before its related objects
  are treated, so at the end the seen objects are A and its related objects, and for A
  and for each of its related objects the table of sources then has exactly one row,
  which the run has created unless it was there before (the table having no row twice
  before the run).
\<close>

theorem cycle_terminates_one_source_each:
  assumes q: "quiet e ls"
    and r: "resolvable e (specific_instance e A)
      (relatedobjectsegment_set e (TranslationSource (translation_key (specific_instance e A))))"
    and dist: "distinct (source_objects d)"
  shows "\<exists>s' d'. create_translations e A True (TranslationCreator u ls) d = (Done, s', d') \<and>
     seen_objects s' = translation_key ` insert (specific_instance e A)
       (set (related_instances e (specific_instance e A)
         (relatedobjectsegment_set e (TranslationSource (translation_key (specific_instance e A)))))) \<and>
     (\<forall>x \<in> insert (specific_instance e A)
         (set (related_instances e (specific_instance e A)
           (relatedobjectsegment_set e (TranslationSource (translation_key (specific_instance e A)))))).
        count_list (source_objects d') (TranslationSource (translation_key x)) = 1 \<and>
        count_list (new_sources d d') (TranslationSource (translation_key x)) =
          (if TranslationSource (translation_key x) \<in> set (source_objects d) then 0 else 1))"
proof -
  let ?s = "TranslationCreator u ls"
  let ?A = "specific_instance e A"
  let ?rel = "related_instances e ?A (relatedobjectsegment_set e (TranslationSource (translation_key ?A)))"
  have s: "seen_objects ?s = {}" "target_locales ?s = ls" by (simp_all add: TranslationCreator_def)
  obtain s' d' where run: "create_translations e A True ?s d = (Done, s', d')"
    using create_translations_Done[of e ?s A d] q r s by auto
  have seen: "seen_objects s' = translation_key ` insert ?A (set ?rel)"
    using create_translations_True_seen[OF run] s by simp
  note c = create_translations_consistent[OF run]
  have cov: "covered ?s d s' d'" using create_translations_covered[OF run] .
  have d': "distinct (source_objects d')" using consistent_distinct_sources[OF c dist] .
  have dn: "distinct (new_sources d d')" using consistentD(4)[OF c] .
  have "count_list (source_objects d') (TranslationSource (translation_key x)) = 1 \<and>
        count_list (new_sources d d') (TranslationSource (translation_key x)) =
          (if TranslationSource (translation_key x) \<in> set (source_objects d) then 0 else 1)"
    if x: "x \<in> insert ?A (set ?rel)" for x
  proof -
    from x seen have "translation_key x \<in> seen_objects s' - seen_objects ?s" using s by auto
    with cov have m: "TranslationSource (translation_key x) \<in> set (source_objects d')"
      by (auto simp: covered_def)
    then show ?thesis
      using distinct_count_list[OF d'] distinct_count_list[OF dn] consistent_new_sources[OF c]
      by simp
  qed
  with run seen show ?thesis by blast
qed

theorem cycle_terminates_one_source_each_witness:
  "quiet (graph_env cycle) [1, 2] \<and>
   resolvable (graph_env cycle) (specific_instance (graph_env cycle) (snippet 1 0))
     (relatedobjectsegment_set (graph_env cycle)
       (TranslationSource (translation_key (specific_instance (graph_env cycle) (snippet 1 0))))) \<and>
   distinct (source_objects empty_db) \<and>
   relatedobjectsegment_set (graph_env cycle) (TranslationSource 1) = [2] \<and>
   relatedobjectsegment_set (graph_env cycle) (TranslationSource 2) = [1] \<and>
   fst (create_translations (graph_env cycle) (snippet 1 0) True (TranslationCreator 7 [1, 2]) empty_db)
     = Done \<and>
   count_list (source_objects (snd (snd
     (create_translations (graph_env cycle) (snippet 1 0) True (TranslationCreator 7 [1, 2]) empty_db))))
     (TranslationSource 1) = 1 \<and>
   count_list (source_objects (snd (snd
     (create_translations (graph_env cycle) (snippet 1 0) True (TranslationCreator 7 [1, 2]) empty_db))))
     (TranslationSource 2) = 1"
proof -
  let ?e = "graph_env cycle"
  let ?A = "specific_instance ?e (snippet 1 0)"
  let ?rel = "related_instances ?e ?A (relatedobjectsegment_set ?e (TranslationSource (translation_key ?A)))"
  have q: "quiet ?e [1, 2]"
    by (simp add: quiet_def graph_env_def)
  have rel: "relatedobjectsegment_set ?e (TranslationSource 1) = [2]"
    "relatedobjectsegment_set ?e (TranslationSource 2) = [1]"
    by code_simp+
  have r: "resolvable ?e ?A (relatedobjectsegment_set ?e (TranslationSource (translation_key ?A)))"
    unfolding resolvable_def by code_simp
  have dist: "distinct (source_objects empty_db)"
    by code_simp
  have m: "snippet 1 0 \<in> insert ?A (set ?rel)" "snippet 2 0 \<in> insert ?A (set ?rel)"
    by code_simp+
  have k: "translation_key (snippet 1 0) = 1" "translation_key (snippet 2 0) = 2"
    by code_simp+
  from cycle_terminates_one_source_each[OF q r dist, of 7]
  obtain s' d' where run: "create_translations ?e (snippet 1 0) True (TranslationCreator 7 [1, 2]) empty_db
      = (Done, s', d')"
    and cnt: "\<forall>x \<in> insert ?A (set ?rel).
        count_list (source_objects d') (TranslationSource (translation_key x)) = 1 \<and>
        count_list (new_sources empty_db d') (TranslationSource (translation_key x)) =
          (if TranslationSource (translation_key x) \<in> set (source_objects empty_db) then 0 else 1)"
    by blast
  from cnt m k have "count_list (source_objects d') (TranslationSource 1) = 1"
    "count_list (source_objects d') (TranslationSource 2) = 1"
    by force+
  with q r dist rel run show ?thesis by simp
qed

text \<open>
  C2. When \<open>create_translations\<close> on A with a new translator returns normally, A and each
  related object of A have a source, and the only sources the run has created are
  theirs: for an object C that is neither A nor a related object of A, so also for a
  related object of a related object of A, the run creates no source, because the related
  objects of A are treated with \<^verbatim>\<open>include_related_objects=False\<close>.
\<close>

theorem related_objects_one_level:
  assumes run: "create_translations e A True (TranslationCreator u ls) d = (Done, s', d')"
    and C: "translation_key C \<notin> translation_key ` insert (specific_instance e A)
       (set (related_instances e (specific_instance e A)
         (relatedobjectsegment_set e (TranslationSource (translation_key (specific_instance e A))))))"
  shows "(\<forall>x \<in> insert (specific_instance e A)
         (set (related_instances e (specific_instance e A)
           (relatedobjectsegment_set e (TranslationSource (translation_key (specific_instance e A)))))).
        TranslationSource (translation_key x) \<in> set (source_objects d')) \<and>
     TranslationSource (translation_key C) \<notin> set (new_sources d d') \<and>
     SourceCreated (TranslationSource (translation_key C)) \<notin> set (new_events d d') \<and>
     (TranslationSource (translation_key C) \<in> set (source_objects d') \<longleftrightarrow>
        TranslationSource (translation_key C) \<in> set (source_objects d))"
proof -
  let ?s = "TranslationCreator u ls"
  let ?A = "specific_instance e A"
  let ?rel = "related_instances e ?A (relatedobjectsegment_set e (TranslationSource (translation_key ?A)))"
  have s: "seen_objects ?s = {}" by (simp add: TranslationCreator_def)
  have seen: "seen_objects s' = translation_key ` insert ?A (set ?rel)"
    using create_translations_True_seen[OF run] s by simp
  note c = create_translations_consistent[OF run]
  note o = create_translations_owned[OF run]
  have cov: "covered ?s d s' d'" using create_translations_covered[OF run] .
  have 1: "\<forall>x \<in> insert ?A (set ?rel). TranslationSource (translation_key x) \<in> set (source_objects d')"
    using cov seen s by (auto simp: covered_def)
  have 2: "TranslationSource (translation_key C) \<notin> set (new_sources d d')"
    using new_sources_owned[OF c o, of "TranslationSource (translation_key C)"] C seen by auto
  have 3: "SourceCreated (TranslationSource (translation_key C)) \<notin> set (new_events d d')"
    using 2 consistentD(2)[OF c] by (simp add: set_created_sources)
  have 4: "TranslationSource (translation_key C) \<in> set (source_objects d') \<longleftrightarrow>
        TranslationSource (translation_key C) \<in> set (source_objects d)"
    using 2 extends_tables(1)[OF consistentD(1)[OF c]] by auto
  from 1 2 3 4 show ?thesis by blast
qed

theorem related_objects_one_level_witness:
  "create_translations (graph_env chain) (snippet 1 0) True (TranslationCreator 7 [1, 2]) empty_db =
     (Done, \<lparr>user = 7, target_locales = [1, 2], seen_objects = {2, 1}\<rparr>,
      \<lparr>source_objects = [TranslationSource 1, TranslationSource 2],
       translation_objects =
         [Translation (TranslationSource 2) 1, Translation (TranslationSource 2) 2,
          Translation (TranslationSource 1) 1, Translation (TranslationSource 1) 2],
       journal =
         [SourceCreated (TranslationSource 1), SourceCreated (TranslationSource 2),
          TranslationCreated (Translation (TranslationSource 2) 1),
          TargetSaved (Translation (TranslationSource 2) 1) 7,
          TranslationCreated (Translation (TranslationSource 2) 2),
          TargetSaved (Translation (TranslationSource 2) 2) 7,
          TranslationCreated (Translation (TranslationSource 1) 1),
          TargetSaved (Translation (TranslationSource 1) 1) 7,
          TranslationCreated (Translation (TranslationSource 1) 2),
          TargetSaved (Translation (TranslationSource 1) 2) 7]\<rparr>) \<and>
   related_instances (graph_env chain) (snippet 1 0)
     (relatedobjectsegment_set (graph_env chain) (TranslationSource 1)) = [snippet 2 0] \<and>
   related_instances (graph_env chain) (snippet 2 0)
     (relatedobjectsegment_set (graph_env chain) (TranslationSource 2)) = [snippet 3 0] \<and>
   TranslationSource 3 \<notin> set (source_objects (snd (snd
     (create_translations (graph_env chain) (snippet 1 0) True (TranslationCreator 7 [1, 2]) empty_db))))"
proof -
  have run: "create_translations (graph_env chain) (snippet 1 0) True (TranslationCreator 7 [1, 2]) empty_db =
     (Done, \<lparr>user = 7, target_locales = [1, 2], seen_objects = {2, 1}\<rparr>,
      \<lparr>source_objects = [TranslationSource 1, TranslationSource 2],
       translation_objects =
         [Translation (TranslationSource 2) 1, Translation (TranslationSource 2) 2,
          Translation (TranslationSource 1) 1, Translation (TranslationSource 1) 2],
       journal =
         [SourceCreated (TranslationSource 1), SourceCreated (TranslationSource 2),
          TranslationCreated (Translation (TranslationSource 2) 1),
          TargetSaved (Translation (TranslationSource 2) 1) 7,
          TranslationCreated (Translation (TranslationSource 2) 2),
          TargetSaved (Translation (TranslationSource 2) 2) 7,
          TranslationCreated (Translation (TranslationSource 1) 1),
          TargetSaved (Translation (TranslationSource 1) 1) 7,
          TranslationCreated (Translation (TranslationSource 1) 2),
          TargetSaved (Translation (TranslationSource 1) 2) 7]\<rparr>)"
    by code_simp
  have k: "translation_key (snippet 3 0) = 3"
    by (simp add: snippet_def)
  have r1: "related_instances (graph_env chain) (snippet 1 0)
     (relatedobjectsegment_set (graph_env chain) (TranslationSource 1)) = [snippet 2 0]"
    by code_simp
  have r2: "related_instances (graph_env chain) (snippet 2 0)
     (relatedobjectsegment_set (graph_env chain) (TranslationSource 2)) = [snippet 3 0]"
    by code_simp
  have C: "translation_key (snippet 3 0) \<notin> translation_key ` insert (specific_instance (graph_env chain) (snippet 1 0))
       (set (related_instances (graph_env chain) (specific_instance (graph_env chain) (snippet 1 0))
         (relatedobjectsegment_set (graph_env chain)
           (TranslationSource (translation_key (specific_instance (graph_env chain) (snippet 1 0)))))))"
    by code_simp
  from related_objects_one_level[OF run C]
  have "TranslationSource (translation_key (snippet 3 0)) \<in> set (source_objects
       \<lparr>source_objects = [TranslationSource 1, TranslationSource 2],
       translation_objects =
         [Translation (TranslationSource 2) 1, Translation (TranslationSource 2) 2,
          Translation (TranslationSource 1) 1, Translation (TranslationSource 1) 2],
       journal =
         [SourceCreated (TranslationSource 1), SourceCreated (TranslationSource 2),
          TranslationCreated (Translation (TranslationSource 2) 1),
          TargetSaved (Translation (TranslationSource 2) 1) 7,
          TranslationCreated (Translation (TranslationSource 2) 2),
          TargetSaved (Translation (TranslationSource 2) 2) 7,
          TranslationCreated (Translation (TranslationSource 1) 1),
          TargetSaved (Translation (TranslationSource 1) 1) 7,
          TranslationCreated (Translation (TranslationSource 1) 2),
          TargetSaved (Translation (TranslationSource 1) 2) 7]\<rparr>) \<longleftrightarrow>
        TranslationSource (translation_key (snippet 3 0)) \<in> set (source_objects empty_db)"
    by blast
  then have "TranslationSource 3 \<notin> set (source_objects
       \<lparr>source_objects = [TranslationSource 1, TranslationSource 2],
       translation_objects =
         [Translation (TranslationSource 2) 1, Translation (TranslationSource 2) 2,
          Translation (TranslationSource 1) 1, Translation (TranslationSource 1) 2],
       journal =
         [SourceCreated (TranslationSource 1), SourceCreated (TranslationSource 2),
          TranslationCreated (Translation (TranslationSource 2) 1),
          TargetSaved (Translation (TranslationSource 2) 1) 7,
          TranslationCreated (Translation (TranslationSource 2) 2),
          TargetSaved (Translation (TranslationSource 2) 2) 7,
          TranslationCreated (Translation (TranslationSource 1) 1),
          TargetSaved (Translation (TranslationSource 1) 1) 7,
          TranslationCreated (Translation (TranslationSource 1) 2),
          TargetSaved (Translation (TranslationSource 1) 2) 7]\<rparr>)"
    by (simp add: k empty_db_def)
  then show ?thesis
    unfolding run using r1 r2 by simp
qed

text \<open>
  C3. For every translation (a pair of a source and a target locale) and every user, in
  the part of the journal that one call of \<open>create_translations\<close> writes: the
  translation is created at most once, and exactly when it was missing before;
  \<open>save_target\<close> is never performed for a translation that existed before the call,
  never for another user than the submitting one, never more often than the translation
  is created, and, when the call returns normally, exactly as often as the translation is
  created.
\<close>

theorem save_target_exactly_when_created:
  assumes run: "create_translations e i b s d = (out, s', d')"
  shows "count_list (new_events d d') (TranslationCreated t) =
           (if t \<in> set (translation_objects d') \<and> t \<notin> set (translation_objects d) then 1 else 0) \<and>
         (t \<in> set (translation_objects d) \<longrightarrow> count_list (new_events d d') (TargetSaved t u) = 0) \<and>
         (u \<noteq> user s \<longrightarrow> count_list (new_events d d') (TargetSaved t u) = 0) \<and>
         count_list (new_events d d') (TargetSaved t (user s))
           \<le> count_list (new_events d d') (TranslationCreated t) \<and>
         (out = Done \<longrightarrow>
            count_list (new_events d d') (TargetSaved t (user s))
              = count_list (new_events d d') (TranslationCreated t))"
proof -
  from create_translations_evolves[OF run]
  have c: "consistent d d'" and g: "gated (user s) out d d'" by (simp_all add: evolves_def)
  note m = consistent_new_translations[OF c]
  have cr: "count_list (new_events d d') (TranslationCreated t) =
      (if t \<in> set (new_translations d d') then 1 else 0)"
  proof -
    have "distinct (new_translations d d')"
      and "new_translations d d' = created_translations (new_events d d')"
      using c unfolding consistent_def by blast+
    then show ?thesis
      using distinct_count_list[of "new_translations d d'" t]
      by (simp add: count_created_translations)
  qed
  have le: "count_list (new_events d d') (TargetSaved t u')
        \<le> (if u' = user s \<and> t \<in> set (new_translations d d') then 1 else 0)" for u'
    using g by (simp add: gated_def)
  have eq: "out = Done \<Longrightarrow> count_list (new_events d d') (TargetSaved t u')
        = (if u' = user s \<and> t \<in> set (new_translations d d') then 1 else 0)" for u'
    using g by (simp add: gated_def)
  show ?thesis
    using cr le[of u] le[of "user s"] eq[of "user s"] m[of t]
    by (auto split: if_splits)
qed

theorem save_target_exactly_when_created_witness:
  "create_translations (graph_env cycle) (snippet 1 0) True (TranslationCreator 7 [1, 2]) db_one =
    (Done, \<lparr>user = 7, target_locales = [1, 2], seen_objects = {2, 1}\<rparr>,
     \<lparr>source_objects = [TranslationSource 1, TranslationSource 2],
      translation_objects =
        [Translation (TranslationSource 1) 1, Translation (TranslationSource 2) 1,
         Translation (TranslationSource 2) 2, Translation (TranslationSource 1) 2],
      journal =
        [SourceCreated (TranslationSource 2),
         TranslationCreated (Translation (TranslationSource 2) 1),
         TargetSaved (Translation (TranslationSource 2) 1) 7,
         TranslationCreated (Translation (TranslationSource 2) 2),
         TargetSaved (Translation (TranslationSource 2) 2) 7,
         TranslationCreated (Translation (TranslationSource 1) 2),
         TargetSaved (Translation (TranslationSource 1) 2) 7]\<rparr>) \<and>
   Translation (TranslationSource 1) 1 \<in> set (translation_objects db_one) \<and>
   count_list (journal
     (snd (snd (create_translations (graph_env cycle) (snippet 1 0) True (TranslationCreator 7 [1, 2]) db_one))))
     (TargetSaved (Translation (TranslationSource 1) 1) 7) = 0 \<and>
   count_list (journal
     (snd (snd (create_translations (graph_env cycle) (snippet 1 0) True (TranslationCreator 7 [1, 2]) db_one))))
     (TargetSaved (Translation (TranslationSource 1) 2) 7) = 1"
proof -
  have run: "create_translations (graph_env cycle) (snippet 1 0) True (TranslationCreator 7 [1, 2]) db_one =
    (Done, \<lparr>user = 7, target_locales = [1, 2], seen_objects = {2, 1}\<rparr>,
     \<lparr>source_objects = [TranslationSource 1, TranslationSource 2],
      translation_objects =
        [Translation (TranslationSource 1) 1, Translation (TranslationSource 2) 1,
         Translation (TranslationSource 2) 2, Translation (TranslationSource 1) 2],
      journal =
        [SourceCreated (TranslationSource 2),
         TranslationCreated (Translation (TranslationSource 2) 1),
         TargetSaved (Translation (TranslationSource 2) 1) 7,
         TranslationCreated (Translation (TranslationSource 2) 2),
         TargetSaved (Translation (TranslationSource 2) 2) 7,
         TranslationCreated (Translation (TranslationSource 1) 2),
         TargetSaved (Translation (TranslationSource 1) 2) 7]\<rparr>)"
    by code_simp
  have old: "Translation (TranslationSource 1) 1 \<in> set (translation_objects db_one)"
    by (simp add: db_one_def)
  from save_target_exactly_when_created[OF run, of "Translation (TranslationSource 1) 1" 7]
    save_target_exactly_when_created[OF run, of "Translation (TranslationSource 1) 2" 7]
  show ?thesis
    unfolding run using old
    by (simp add: new_events_def added_def db_one_def TranslationCreator_def)
qed

text \<open>
  C4. With \<open>src\<close> the source of the object that is submitted, and the target locales a
  list without repetition (a set of N locales): a call of \<open>create_translations\<close> that
  treats the object and returns normally creates no source twice, leaves the object a
  translation to each target locale, and creates as many translations of the object as
  there are target locales for which it had none, so exactly N when it had none at all.
  The same holds for a whole run of \<^verbatim>\<open>SubmitTranslationView.post\<close> that ends in the
  redirect, with the cleaned locales of the form.
\<close>

theorem one_source_per_object_and_one_translation_per_locale:
  "(create_translations e i b s d = (Done, s', d') \<longrightarrow>
      translation_key (specific_instance e i) \<notin> seen_objects s \<longrightarrow>
      distinct (target_locales s) \<longrightarrow>
      (\<forall>x. count_list (new_sources d d') x \<le> 1) \<and>
      (\<forall>l \<in> set (target_locales s).
         Translation (TranslationSource (translation_key (specific_instance e i))) l
           \<in> set (translation_objects d')) \<and>
      length (filter (\<lambda>t. source t = TranslationSource (translation_key (specific_instance e i)))
                (new_translations d d')) =
        length (filter (\<lambda>l. Translation (TranslationSource (translation_key (specific_instance e i))) l
                  \<notin> set (translation_objects d)) (target_locales s)) \<and>
      ((\<forall>l. Translation (TranslationSource (translation_key (specific_instance e i))) l
            \<notin> set (translation_objects d)) \<longrightarrow>
         length (filter (\<lambda>t. source t = TranslationSource (translation_key (specific_instance e i)))
                (translation_objects d')) = length (target_locales s))) \<and>
   (post e obj req d0 = (Inr Redirect, d1) \<longrightarrow>
      distinct (all_locales e) \<longrightarrow>
      (\<forall>x. count_list (new_sources d0 d1) x \<le> 1) \<and>
      (\<forall>l \<in> set (cleaned_locales e (page obj) (POST req)).
         Translation (TranslationSource (translation_key (specific_instance e (page obj)))) l
           \<in> set (translation_objects d1)) \<and>
      length (filter (\<lambda>t. source t = TranslationSource (translation_key (specific_instance e (page obj))))
                (new_translations d0 d1)) =
        length (filter (\<lambda>l. Translation (TranslationSource (translation_key (specific_instance e (page obj)))) l
                  \<notin> set (translation_objects d0)) (cleaned_locales e (page obj) (POST req))) \<and>
      ((\<forall>l. Translation (TranslationSource (translation_key (specific_instance e (page obj)))) l
            \<notin> set (translation_objects d0)) \<longrightarrow>
         length (filter (\<lambda>t. source t = TranslationSource (translation_key (specific_instance e (page obj))))
                (translation_objects d1)) = length (cleaned_locales e (page obj) (POST req))))"
proof (intro conjI impI)
  let ?src = "TranslationSource (translation_key (specific_instance e i))"
  assume run: "create_translations e i b s d = (Done, s', d')"
    and unseen: "translation_key (specific_instance e i) \<notin> seen_objects s"
    and dl: "distinct (target_locales s)"
  note ev = create_translations_evolves[OF run]
  note c = create_translations_consistent[OF run]
  have loc: "\<forall>t \<in> set (new_translations d d'). target_locale t \<in> set (target_locales s)"
    using ev by (simp add: evolves_def)
  have "translation_key (specific_instance e i) \<in> seen_objects s' - seen_objects s"
    using create_translations_marks[OF run] unseen by simp
  with create_translations_covered[OF run]
  have cov: "\<forall>l \<in> set (target_locales s). Translation ?src l \<in> set (translation_objects d')"
    by (auto simp: covered_def)
  note n = fan_out_count[OF c loc cov dl]
  show "\<forall>x. count_list (new_sources d d') x \<le> 1" using atmost_one_new_source[OF c] by simp
  show "\<forall>l \<in> set (target_locales s). Translation ?src l \<in> set (translation_objects d')" by (rule cov)
  show "length (filter (\<lambda>t. source t = ?src) (new_translations d d')) =
        length (filter (\<lambda>l. Translation ?src l \<notin> set (translation_objects d)) (target_locales s))"
    by (rule n)
  assume fresh: "\<forall>l. Translation ?src l \<notin> set (translation_objects d)"
  then show "length (filter (\<lambda>t. source t = ?src) (translation_objects d')) = length (target_locales s)"
    using n fresh_root_translations[OF c fresh] by simp
next
  let ?src = "TranslationSource (translation_key (specific_instance e (page obj)))"
  let ?ls = "cleaned_locales e (page obj) (POST req)"
  assume p: "post e obj req d0 = (Inr Redirect, d1)" and da: "distinct (all_locales e)"
  from p have b: "submit_block e obj req d0 = (Inr Redirect, d1)"
    by (cases rule: post_cases) simp_all
  from submit_block_evolves[OF b]
  have c: "consistent d0 d1"
    and loc: "\<forall>t \<in> set (new_translations d0 d1). target_locale t \<in> set ?ls"
    by (auto simp: evolves_def TranslationCreator_def)
  note cov = submit_block_root_covered[OF b]
  note n = fan_out_count[OF c loc cov distinct_cleaned_locales[OF da]]
  show "\<forall>x. count_list (new_sources d0 d1) x \<le> 1" using atmost_one_new_source[OF c] by simp
  show "\<forall>l \<in> set ?ls. Translation ?src l \<in> set (translation_objects d1)" by (rule cov)
  show "length (filter (\<lambda>t. source t = ?src) (new_translations d0 d1)) =
        length (filter (\<lambda>l. Translation ?src l \<notin> set (translation_objects d0)) ?ls)"
    by (rule n)
  assume fresh: "\<forall>l. Translation ?src l \<notin> set (translation_objects d0)"
  then show "length (filter (\<lambda>t. source t = ?src) (translation_objects d1)) = length ?ls"
    using n fresh_root_translations[OF c fresh] by simp
qed

theorem one_source_per_object_and_one_translation_per_locale_witness:
  "fst (create_translations (graph_env cycle) (snippet 1 0) True (TranslationCreator 7 [1, 2, 3]) empty_db)
     = Done \<and>
   distinct (target_locales (TranslationCreator 7 [1, 2, 3])) \<and>
   length (filter (\<lambda>t. source t = TranslationSource 1)
     (translation_objects (snd (snd
        (create_translations (graph_env cycle) (snippet 1 0) True (TranslationCreator 7 [1, 2, 3]) empty_db)))))
     = 3 \<and>
   count_list (source_objects (snd (snd
        (create_translations (graph_env cycle) (snippet 1 0) True (TranslationCreator 7 [1, 2, 3]) empty_db))))
     (TranslationSource 2) = 1 \<and>
   distinct (all_locales (graph_env cycle)) \<and>
   fst (post (graph_env cycle) (PageNode (snippet 1 0) [])
     \<lparr>request_user = 7, POST = \<lparr>locales = [1, 2, 3], include_subtree = False\<rparr>, next_url = []\<rparr> empty_db)
     = Inr Redirect \<and>
   length (filter (\<lambda>t. source t = TranslationSource 1)
     (translation_objects (snd (post (graph_env cycle) (PageNode (snippet 1 0) [])
        \<lparr>request_user = 7, POST = \<lparr>locales = [1, 2, 3], include_subtree = False\<rparr>, next_url = []\<rparr> empty_db))))
     = 3"
proof -
  let ?e = "graph_env cycle"
  let ?s = "TranslationCreator 7 [1, 2, 3]"
  let ?run = "create_translations ?e (snippet 1 0) True ?s empty_db"
  let ?obj = "PageNode (snippet 1 0) []"
  let ?req = "\<lparr>request_user = 7, POST = \<lparr>locales = [1, 2, 3], include_subtree = False\<rparr>, next_url = []\<rparr>"
  let ?post = "post ?e ?obj ?req empty_db"
  have f: "fst ?run = Done" by code_simp
  then have run: "?run = (Done, fst (snd ?run), snd (snd ?run))"
    by (metis prod.collapse)
  have unseen: "translation_key (specific_instance ?e (snippet 1 0)) \<notin> seen_objects ?s"
    by code_simp
  have dl: "distinct (target_locales ?s)" by code_simp
  have k: "translation_key (specific_instance ?e (snippet 1 0)) = 1"
    "translation_key (specific_instance ?e (page ?obj)) = 1"
    by code_simp+
  have n: "length (target_locales ?s) = 3" "length (cleaned_locales ?e (page ?obj) (POST ?req)) = 3"
    by code_simp+
  have fresh: "\<forall>l. Translation (TranslationSource 1) l \<notin> set (translation_objects empty_db)"
    by (simp add: empty_db_def)
  have c2: "count_list (source_objects (snd (snd ?run))) (TranslationSource 2) = 1"
    by code_simp
  have da: "distinct (all_locales ?e)" by code_simp
  have pf: "fst ?post = Inr Redirect" by code_simp
  then have p: "?post = (Inr Redirect, snd ?post)"
    by (metis prod.collapse)
  note th = one_source_per_object_and_one_translation_per_locale[of ?e "snippet 1 0" True ?s empty_db
      "fst (snd ?run)" "snd (snd ?run)" ?obj ?req empty_db "snd ?post"]
  from th[THEN conjunct1, rule_format, OF run unseen dl] fresh
  have a: "length (filter (\<lambda>t. source t = TranslationSource 1) (translation_objects (snd (snd ?run)))) = 3"
    unfolding k n by blast
  from th[THEN conjunct2, rule_format, OF p da] fresh
  have b: "length (filter (\<lambda>t. source t = TranslationSource 1) (translation_objects (snd ?post))) = 3"
    unfolding k n by blast
  from f dl a c2 da pf b show ?thesis by blast
qed



text \<open>
  C6. The journal entries that one call of \<open>create_translations\<close> with
  \<^verbatim>\<open>include_related_objects=True\<close> writes fall into two parts, around a state \<open>d2\<close> of the
  database: the first part has no entry of a translation of the object of the call, the
  second part has only entries of translations of this object (created, or initialised
  for the user of the translator), and when the second part is not empty, every related
  object of the object that was not seen before the call has in \<open>d2\<close> its source and its
  translation to every target locale.
\<close>

theorem related_objects_before_translation_records:
  assumes run: "create_translations e i True s d = (out, s', d')"
  shows "\<exists>d2. extends d d2 \<and> extends d2 d' \<and>
     (\<forall>ev \<in> set (new_events d d2).
        ev = SourceCreated (TranslationSource (translation_key (specific_instance e i))) \<or>
        event_source ev \<noteq> TranslationSource (translation_key (specific_instance e i))) \<and>
     (\<forall>ev \<in> set (new_events d2 d'). \<exists>l \<in> set (target_locales s).
        ev = TranslationCreated
               (Translation (TranslationSource (translation_key (specific_instance e i))) l) \<or>
        ev = TargetSaved
               (Translation (TranslationSource (translation_key (specific_instance e i))) l) (user s)) \<and>
     (new_events d2 d' \<noteq> [] \<longrightarrow>
        (\<forall>x \<in> set (related_instances e (specific_instance e i)
                 (relatedobjectsegment_set e
                   (TranslationSource (translation_key (specific_instance e i))))).
           translation_key x \<notin> insert (translation_key (specific_instance e i)) (seen_objects s) \<longrightarrow>
           TranslationSource (translation_key x) \<in> set (source_objects d2) \<and>
           (\<forall>l \<in> set (target_locales s).
              Translation (TranslationSource (translation_key x)) l \<in> set (translation_objects d2))))"
  using run
proof (cases rule: create_translations_cases)
  case seen
  then show ?thesis by (intro exI[of _ d]) simp
next
  case (source_raised err)
  from source_step(1,8)[OF source_raised(2)] show ?thesis
    by (intro exI[of _ d']) auto
next
  case (related_raised c d1 err)
  let ?k = "translation_key (specific_instance e i)"
  let ?s1 = "s\<lparr>seen_objects := insert ?k (seen_objects s)\<rparr>"
  have e1: "extends d d1" using source_step(1)[OF related_raised(2)] .
  have e2: "extends d1 d'" using add_related_extends[OF related_raised(4)] .
  have a: "\<forall>ev \<in> set (new_events d d1). ev = SourceCreated (TranslationSource ?k)"
    using source_step(8)[OF related_raised(2)] .
  have "owned ?s1 d1 s' d'" using add_related_owned[OF related_raised(4)] .
  then have b: "\<forall>ev \<in> set (new_events d1 d'). event_source ev \<noteq> TranslationSource ?k"
    by (auto simp: owned_def)
  have pre: "\<forall>ev \<in> set (new_events d d').
        ev = SourceCreated (TranslationSource ?k) \<or> event_source ev \<noteq> TranslationSource ?k"
    using a b unfolding new_trans(3)[OF e1 e2] by auto
  show ?thesis
    using pre extends_trans[OF e1 e2] by (intro exI[of _ d']) simp
next
  case (records c d1 d2)
  let ?k = "translation_key (specific_instance e i)"
  let ?s1 = "s\<lparr>seen_objects := insert ?k (seen_objects s)\<rparr>"
  let ?rel = "related_instances e (specific_instance e i) (relatedobjectsegment_set e (TranslationSource ?k))"
  from records(3) have ar: "add_related e (specific_instance e i)
       (relatedobjectsegment_set e (TranslationSource ?k)) ?s1 d1 = (Done, s', d2)" by simp
  have e1: "extends d d1" using source_step(1)[OF records(2)] .
  have e2: "extends d1 d2" using add_related_extends[OF ar] .
  have e3: "extends d2 d'" using records_extends(2)[OF records(4)] .
  have f: "user s' = user s" "target_locales s' = target_locales s"
    using add_related_frame[OF ar] by (simp_all add: frame_def)
  have a: "\<forall>ev \<in> set (new_events d d1). ev = SourceCreated (TranslationSource ?k)"
    using source_step(8)[OF records(2)] .
  have "owned ?s1 d1 s' d2" using add_related_owned[OF ar] .
  then have b: "\<forall>ev \<in> set (new_events d1 d2). event_source ev \<noteq> TranslationSource ?k"
    by (auto simp: owned_def)
  have pre: "\<forall>ev \<in> set (new_events d d2).
        ev = SourceCreated (TranslationSource ?k) \<or> event_source ev \<noteq> TranslationSource ?k"
    using a b unfolding new_trans(3)[OF e1 e2] by auto
  have post: "\<forall>ev \<in> set (new_events d2 d'). \<exists>l \<in> set (target_locales s).
        ev = TranslationCreated (Translation (TranslationSource ?k) l) \<or>
        ev = TargetSaved (Translation (TranslationSource ?k) l) (user s)"
    using records_events[OF records(4)] f by simp
  have seen: "seen_objects s' = seen_objects ?s1 \<union> translation_key ` set ?rel"
    using add_related_seen(2)[OF ar refl] .
  have cov: "covered ?s1 d1 s' d2" using add_related_covered[OF ar] .
  have rel: "\<forall>x \<in> set ?rel. translation_key x \<notin> insert ?k (seen_objects s) \<longrightarrow>
           TranslationSource (translation_key x) \<in> set (source_objects d2) \<and>
           (\<forall>l \<in> set (target_locales s).
              Translation (TranslationSource (translation_key x)) l \<in> set (translation_objects d2))"
  proof (intro ballI impI)
    fix x assume "x \<in> set ?rel" "translation_key x \<notin> insert ?k (seen_objects s)"
    then have "translation_key x \<in> seen_objects s' - seen_objects ?s1"
      using seen by auto
    with cov show "TranslationSource (translation_key x) \<in> set (source_objects d2) \<and>
           (\<forall>l \<in> set (target_locales s).
              Translation (TranslationSource (translation_key x)) l \<in> set (translation_objects d2))"
      unfolding covered_def by simp
  qed
  show ?thesis
    using extends_trans[OF e1 e2] e3 pre post rel by (intro exI[of _ d2]) blast
qed

theorem related_objects_before_translation_records_witness:
  "create_translations (graph_env cycle) (snippet 1 0) True (TranslationCreator 7 [1, 2]) empty_db =
     (Done, \<lparr>user = 7, target_locales = [1, 2], seen_objects = {2, 1}\<rparr>,
      \<lparr>source_objects = [TranslationSource 1, TranslationSource 2],
       translation_objects =
         [Translation (TranslationSource 2) 1, Translation (TranslationSource 2) 2,
          Translation (TranslationSource 1) 1, Translation (TranslationSource 1) 2],
       journal =
         [SourceCreated (TranslationSource 1), SourceCreated (TranslationSource 2),
          TranslationCreated (Translation (TranslationSource 2) 1),
          TargetSaved (Translation (TranslationSource 2) 1) 7,
          TranslationCreated (Translation (TranslationSource 2) 2),
          TargetSaved (Translation (TranslationSource 2) 2) 7,
          TranslationCreated (Translation (TranslationSource 1) 1),
          TargetSaved (Translation (TranslationSource 1) 1) 7,
          TranslationCreated (Translation (TranslationSource 1) 2),
          TargetSaved (Translation (TranslationSource 1) 2) 7]\<rparr>) \<and>
   (\<exists>d2. extends empty_db d2 \<and>
      extends d2
        (snd (snd (create_translations (graph_env cycle) (snippet 1 0) True
           (TranslationCreator 7 [1, 2]) empty_db))) \<and>
      (\<forall>ev \<in> set (new_events empty_db d2).
         ev = SourceCreated (TranslationSource 1) \<or> event_source ev \<noteq> TranslationSource 1) \<and>
      (\<forall>ev \<in> set (new_events d2
           (snd (snd (create_translations (graph_env cycle) (snippet 1 0) True
              (TranslationCreator 7 [1, 2]) empty_db)))).
         event_source ev = TranslationSource 1 \<and> ev \<noteq> SourceCreated (TranslationSource 1)))"
proof -
  have run: "create_translations (graph_env cycle) (snippet 1 0) True (TranslationCreator 7 [1, 2]) empty_db =
     (Done, \<lparr>user = 7, target_locales = [1, 2], seen_objects = {2, 1}\<rparr>,
      \<lparr>source_objects = [TranslationSource 1, TranslationSource 2],
       translation_objects =
         [Translation (TranslationSource 2) 1, Translation (TranslationSource 2) 2,
          Translation (TranslationSource 1) 1, Translation (TranslationSource 1) 2],
       journal =
         [SourceCreated (TranslationSource 1), SourceCreated (TranslationSource 2),
          TranslationCreated (Translation (TranslationSource 2) 1),
          TargetSaved (Translation (TranslationSource 2) 1) 7,
          TranslationCreated (Translation (TranslationSource 2) 2),
          TargetSaved (Translation (TranslationSource 2) 2) 7,
          TranslationCreated (Translation (TranslationSource 1) 1),
          TargetSaved (Translation (TranslationSource 1) 1) 7,
          TranslationCreated (Translation (TranslationSource 1) 2),
          TargetSaved (Translation (TranslationSource 1) 2) 7]\<rparr>)"
    by code_simp
  have k: "translation_key (specific_instance (graph_env cycle) (snippet 1 0)) = 1"
    by code_simp
  from related_objects_before_translation_records[OF run, unfolded k]
  obtain d2 where d2: "extends empty_db d2"
    "extends d2 \<lparr>source_objects = [TranslationSource 1, TranslationSource 2],
       translation_objects =
         [Translation (TranslationSource 2) 1, Translation (TranslationSource 2) 2,
          Translation (TranslationSource 1) 1, Translation (TranslationSource 1) 2],
       journal =
         [SourceCreated (TranslationSource 1), SourceCreated (TranslationSource 2),
          TranslationCreated (Translation (TranslationSource 2) 1),
          TargetSaved (Translation (TranslationSource 2) 1) 7,
          TranslationCreated (Translation (TranslationSource 2) 2),
          TargetSaved (Translation (TranslationSource 2) 2) 7,
          TranslationCreated (Translation (TranslationSource 1) 1),
          TargetSaved (Translation (TranslationSource 1) 1) 7,
          TranslationCreated (Translation (TranslationSource 1) 2),
          TargetSaved (Translation (TranslationSource 1) 2) 7]\<rparr>"
    "\<forall>ev \<in> set (new_events empty_db d2).
        ev = SourceCreated (TranslationSource 1) \<or> event_source ev \<noteq> TranslationSource 1"
    "\<forall>ev \<in> set (new_events d2 \<lparr>source_objects = [TranslationSource 1, TranslationSource 2],
       translation_objects =
         [Translation (TranslationSource 2) 1, Translation (TranslationSource 2) 2,
          Translation (TranslationSource 1) 1, Translation (TranslationSource 1) 2],
       journal =
         [SourceCreated (TranslationSource 1), SourceCreated (TranslationSource 2),
          TranslationCreated (Translation (TranslationSource 2) 1),
          TargetSaved (Translation (TranslationSource 2) 1) 7,
          TranslationCreated (Translation (TranslationSource 2) 2),
          TargetSaved (Translation (TranslationSource 2) 2) 7,
          TranslationCreated (Translation (TranslationSource 1) 1),
          TargetSaved (Translation (TranslationSource 1) 1) 7,
          TranslationCreated (Translation (TranslationSource 1) 2),
          TargetSaved (Translation (TranslationSource 1) 2) 7]\<rparr>).
       \<exists>l \<in> set (target_locales (TranslationCreator 7 [1, 2])).
        ev = TranslationCreated (Translation (TranslationSource 1) l) \<or>
        ev = TargetSaved (Translation (TranslationSource 1) l) (user (TranslationCreator 7 [1, 2]))"
    by blast
  from d2(4) have "\<forall>ev \<in> set (new_events d2 \<lparr>source_objects = [TranslationSource 1, TranslationSource 2],
       translation_objects =
         [Translation (TranslationSource 2) 1, Translation (TranslationSource 2) 2,
          Translation (TranslationSource 1) 1, Translation (TranslationSource 1) 2],
       journal =
         [SourceCreated (TranslationSource 1), SourceCreated (TranslationSource 2),
          TranslationCreated (Translation (TranslationSource 2) 1),
          TargetSaved (Translation (TranslationSource 2) 1) 7,
          TranslationCreated (Translation (TranslationSource 2) 2),
          TargetSaved (Translation (TranslationSource 2) 2) 7,
          TranslationCreated (Translation (TranslationSource 1) 1),
          TargetSaved (Translation (TranslationSource 1) 1) 7,
          TranslationCreated (Translation (TranslationSource 1) 2),
          TargetSaved (Translation (TranslationSource 1) 2) 7]\<rparr>).
       event_source ev = TranslationSource 1 \<and> ev \<noteq> SourceCreated (TranslationSource 1)"
    by fastforce
  with d2(1,2,3) show ?thesis
    unfolding run by (intro conjI refl exI[of _ d2]) simp_all
qed

text \<open>
  C7, as the code has it. \<open>create_translations\<close> has no check of its target locales:
  a call that treats an object and returns normally leaves a translation of the object
  to every target locale, whichever they are. In a run started by
  \<^verbatim>\<open>SubmitTranslationView.post\<close> the target locales are the cleaned locales of the form,
  whose queryset leaves out the locale of the submitted object (lines 45 to 47), so no
  translation that the run creates has the locale of the submitted object as its target.
\<close>

theorem own_locale_excluded_by_the_form:
  "(create_translations e i b s d = (Done, s', d') \<longrightarrow>
      translation_key (specific_instance e i) \<notin> seen_objects s \<longrightarrow>
      (\<forall>l \<in> set (target_locales s).
         Translation (TranslationSource (translation_key (specific_instance e i))) l
           \<in> set (translation_objects d'))) \<and>
   (post e obj req d0 = (r, d1) \<longrightarrow>
      extends d0 d1 \<and>
      (\<forall>t \<in> set (new_translations d0 d1).
         target_locale t \<noteq> locale_id (page obj) \<and> target_locale t \<in> set (locales (POST req))))"
proof (intro conjI impI)
  assume run: "create_translations e i b s d = (Done, s', d')"
    and unseen: "translation_key (specific_instance e i) \<notin> seen_objects s"
  from create_translations_marks[OF run] unseen
  have "translation_key (specific_instance e i) \<in> seen_objects s' - seen_objects s" by simp
  with create_translations_covered[OF run]
  show "\<forall>l \<in> set (target_locales s).
         Translation (TranslationSource (translation_key (specific_instance e i))) l
           \<in> set (translation_objects d')"
    by (auto simp: covered_def)
next
  assume p: "post e obj req d0 = (r, d1)"
  then show "extends d0 d1"
  proof (cases rule: post_cases)
    case (committed resp)
    from submit_block_evolves[OF committed(2)] show ?thesis
      by (auto simp: evolves_def consistent_def)
  qed simp_all
next
  assume p: "post e obj req d0 = (r, d1)"
  then show "\<forall>t \<in> set (new_translations d0 d1).
         target_locale t \<noteq> locale_id (page obj) \<and> target_locale t \<in> set (locales (POST req))"
  proof (cases rule: post_cases)
    case (committed resp)
    from submit_block_evolves[OF committed(2)]
    have "\<forall>t \<in> set (new_translations d0 d1).
        target_locale t \<in> set (cleaned_locales e (page obj) (POST req))"
      by (auto simp: evolves_def TranslationCreator_def)
    with cleaned_locales_subset[of e "page obj" "POST req"] show ?thesis by blast
  qed simp_all
qed

theorem own_locale_excluded_by_the_form_witness:
  "create_translations (graph_env cycle) (snippet 1 0) True (TranslationCreator 7 [0]) empty_db =
     (Done, \<lparr>user = 7, target_locales = [0], seen_objects = {2, 1}\<rparr>,
      \<lparr>source_objects = [TranslationSource 1, TranslationSource 2],
       translation_objects = [Translation (TranslationSource 2) 0, Translation (TranslationSource 1) 0],
       journal =
         [SourceCreated (TranslationSource 1), SourceCreated (TranslationSource 2),
          TranslationCreated (Translation (TranslationSource 2) 0),
          TargetSaved (Translation (TranslationSource 2) 0) 7,
          TranslationCreated (Translation (TranslationSource 1) 0),
          TargetSaved (Translation (TranslationSource 1) 0) 7]\<rparr>) \<and>
   post (graph_env cycle) (PageNode (snippet 1 0) [])
     \<lparr>request_user = 7, POST = \<lparr>locales = [0], include_subtree = False\<rparr>, next_url = []\<rparr> empty_db =
     (Inr RenderForm, empty_db) \<and>
   post (graph_env cycle) (PageNode (snippet 1 0) [])
     \<lparr>request_user = 7, POST = \<lparr>locales = [2], include_subtree = False\<rparr>, next_url = []\<rparr> empty_db =
     (Inr Redirect,
      \<lparr>source_objects = [TranslationSource 1, TranslationSource 2],
       translation_objects = [Translation (TranslationSource 2) 2, Translation (TranslationSource 1) 2],
       journal =
         [SourceCreated (TranslationSource 1), SourceCreated (TranslationSource 2),
          TranslationCreated (Translation (TranslationSource 2) 2),
          TargetSaved (Translation (TranslationSource 2) 2) 7,
          TranslationCreated (Translation (TranslationSource 1) 2),
          TargetSaved (Translation (TranslationSource 1) 2) 7]\<rparr>) \<and>
   Translation (TranslationSource 1) 0 \<in> set (translation_objects (snd (snd
     (create_translations (graph_env cycle) (snippet 1 0) True (TranslationCreator 7 [0]) empty_db)))) \<and>
   Translation (TranslationSource 1) 0 \<notin> set (new_translations empty_db (snd
     (post (graph_env cycle) (PageNode (snippet 1 0) [])
       \<lparr>request_user = 7, POST = \<lparr>locales = [2], include_subtree = False\<rparr>, next_url = []\<rparr> empty_db)))"
proof -
  let ?e = "graph_env cycle"
  let ?req = "\<lparr>request_user = 7, POST = \<lparr>locales = [2], include_subtree = False\<rparr>, next_url = []\<rparr>"
  have run: "create_translations ?e (snippet 1 0) True (TranslationCreator 7 [0]) empty_db =
     (Done, \<lparr>user = 7, target_locales = [0], seen_objects = {2, 1}\<rparr>,
      \<lparr>source_objects = [TranslationSource 1, TranslationSource 2],
       translation_objects = [Translation (TranslationSource 2) 0, Translation (TranslationSource 1) 0],
       journal =
         [SourceCreated (TranslationSource 1), SourceCreated (TranslationSource 2),
          TranslationCreated (Translation (TranslationSource 2) 0),
          TargetSaved (Translation (TranslationSource 2) 0) 7,
          TranslationCreated (Translation (TranslationSource 1) 0),
          TargetSaved (Translation (TranslationSource 1) 0) 7]\<rparr>)"
    by code_simp
  have p0: "post ?e (PageNode (snippet 1 0) [])
     \<lparr>request_user = 7, POST = \<lparr>locales = [0], include_subtree = False\<rparr>, next_url = []\<rparr> empty_db =
     (Inr RenderForm, empty_db)"
    by code_simp
  have p2: "post ?e (PageNode (snippet 1 0) []) ?req empty_db =
     (Inr Redirect,
      \<lparr>source_objects = [TranslationSource 1, TranslationSource 2],
       translation_objects = [Translation (TranslationSource 2) 2, Translation (TranslationSource 1) 2],
       journal =
         [SourceCreated (TranslationSource 1), SourceCreated (TranslationSource 2),
          TranslationCreated (Translation (TranslationSource 2) 2),
          TargetSaved (Translation (TranslationSource 2) 2) 7,
          TranslationCreated (Translation (TranslationSource 1) 2),
          TargetSaved (Translation (TranslationSource 1) 2) 7]\<rparr>)"
    by code_simp
  have unseen: "translation_key (specific_instance ?e (snippet 1 0))
      \<notin> seen_objects (TranslationCreator 7 [0])"
    by code_simp
  have k: "translation_key (specific_instance ?e (snippet 1 0)) = 1"
    "target_locales (TranslationCreator 7 [0]) = [0]"
    "locale_id (page (PageNode (snippet 1 0) [])) = 0"
    by code_simp+
  note th = own_locale_excluded_by_the_form[of ?e "snippet 1 0" True "TranslationCreator 7 [0]" empty_db
      "\<lparr>user = 7, target_locales = [0], seen_objects = {2, 1}\<rparr>"
      "\<lparr>source_objects = [TranslationSource 1, TranslationSource 2],
       translation_objects = [Translation (TranslationSource 2) 0, Translation (TranslationSource 1) 0],
       journal =
         [SourceCreated (TranslationSource 1), SourceCreated (TranslationSource 2),
          TranslationCreated (Translation (TranslationSource 2) 0),
          TargetSaved (Translation (TranslationSource 2) 0) 7,
          TranslationCreated (Translation (TranslationSource 1) 0),
          TargetSaved (Translation (TranslationSource 1) 0) 7]\<rparr>"
      "PageNode (snippet 1 0) []" ?req empty_db "fst (post ?e (PageNode (snippet 1 0) []) ?req empty_db)"
      "snd (post ?e (PageNode (snippet 1 0) []) ?req empty_db)"]
  from th[THEN conjunct1, rule_format, OF run unseen]
  have a: "Translation (TranslationSource 1) 0 \<in> set (translation_objects (snd (snd
     (create_translations ?e (snippet 1 0) True (TranslationCreator 7 [0]) empty_db))))"
    unfolding run k by simp
  from th[THEN conjunct2, rule_format, OF prod.collapse[symmetric]]
  have "\<forall>t \<in> set (new_translations empty_db (snd (post ?e (PageNode (snippet 1 0) []) ?req empty_db))).
      target_locale t \<noteq> 0"
    unfolding k by blast
  then have b: "Translation (TranslationSource 1) 0 \<notin> set (new_translations empty_db (snd
     (post ?e (PageNode (snippet 1 0) []) ?req empty_db)))"
    by force
  from run p0 p2 a b show ?thesis by blast
qed

text \<open>
  The claim as it was stated fails: called with the target locales 0 and 1 for an object
  of locale 0, \<open>create_translations\<close> creates and initialises the translation of the
  object to its own locale 0.
\<close>

theorem own_locale_not_refused_counterexample:
  "locale_id (specific_instance (graph_env child_only) (snippet 1 0)) = 0 \<and>
   create_translations (graph_env child_only) (snippet 1 0) True (TranslationCreator 7 [0, 1]) empty_db =
     (Done, \<lparr>user = 7, target_locales = [0, 1], seen_objects = {1}\<rparr>,
      \<lparr>source_objects = [TranslationSource 1],
       translation_objects = [Translation (TranslationSource 1) 0, Translation (TranslationSource 1) 1],
       journal =
         [SourceCreated (TranslationSource 1),
          TranslationCreated (Translation (TranslationSource 1) 0),
          TargetSaved (Translation (TranslationSource 1) 0) 7,
          TranslationCreated (Translation (TranslationSource 1) 1),
          TargetSaved (Translation (TranslationSource 1) 1) 7]\<rparr>)"
  by code_simp

text \<open>
  C8, as the code has it. The whole run of \<^verbatim>\<open>SubmitTranslationView.post\<close> on a valid form, the
  call of \<open>create_translations\<close> on the submitted object, the walk over the subtree and
  then the success message and the redirect, is the block of one \<open>atomic\<close>, so \<open>post\<close>
  either raises and leaves the database as it was, or redirects and leaves the database
  as the creations have left it. When a creation raises, \<open>post\<close> raises the same error and
  nothing of the run is persisted; this is what happens when the source of the submitted
  object cannot be created, when the source of an object that the run has reached cannot
  be created, when a task of such an object to one of the chosen locales cannot be
  created, and when the initialisation of a task that the run has created fails. When
  all creations return but the message or the redirect raises, nothing is persisted
  either. When the response is built, all that the run has written is committed: the
  database extends the old one, and every object that the run has reached has its source
  and its task to every chosen locale. When no repository call fails and every related
  object resolves, the creations return.
\<close>

theorem post_commits_all_or_nothing:
  assumes valid: "is_valid e (page obj) (POST req)"
    and run: "run_creations e obj req d = (out, s1, d1)"
  shows
    "((\<exists>err. post e obj req d = (Inl err, d)) \<or>
        out = Done \<and> post e obj req d = (Inr Redirect, d1)) \<and>
     (\<forall>err. out = Raised err \<longrightarrow> post e obj req d = (Inl err, d)) \<and>
     (\<forall>err. out = Done \<and> success_response e obj req = Inl err \<longrightarrow>
        post e obj req d = (Inl err, d)) \<and>
     (out = Done \<and> success_response e obj req = Inr Redirect \<longrightarrow>
        post e obj req d = (Inr Redirect, d1) \<and> extends d d1 \<and>
        covered (TranslationCreator (request_user req) (cleaned_locales e (page obj) (POST req)))
          d s1 d1) \<and>
     (source_fails e (specific_instance e (page obj)) \<longrightarrow>
        post e obj req d = (Inl StorageFailure, d)) \<and>
     (\<forall>k \<in> seen_objects s1.
        (\<forall>inst. translation_key inst = k \<longrightarrow> source_fails e inst) \<or>
        (\<exists>l \<in> set (cleaned_locales e (page obj) (POST req)).
           translation_fails e (TranslationSource k) l) \<longrightarrow>
        (\<exists>err. out = Raised err \<and> post e obj req d = (Inl err, d))) \<and>
     (\<forall>t \<in> set (new_translations d d1). save_target_fails e t \<longrightarrow>
        (\<exists>err. out = Raised err \<and> post e obj req d = (Inl err, d))) \<and>
     (quiet e (cleaned_locales e (page obj) (POST req)) \<and> (\<forall>k l. get_instance e k l \<noteq> None) \<longrightarrow>
        out = Done)"
proof -
  let ?ls = "cleaned_locales e (page obj) (POST req)"
  let ?s0 = "TranslationCreator (request_user req) ?ls"
  note p = post_valid[OF valid run]
  have raised: "post e obj req d = (Inl err, d)" if "out = Raised err" for err
    using p that by simp
  have not_done: "\<exists>err. out = Raised err \<and> post e obj req d = (Inl err, d)" if "out \<noteq> Done"
    using that raised by (cases out) simp_all
  have response_raised: "post e obj req d = (Inl err, d)"
    if "out = Done" "success_response e obj req = Inl err" for err
    using p that by simp
  have committed: "post e obj req d = (Inr Redirect, d1)"
    if "out = Done" "success_response e obj req = Inr Redirect"
    using p that by simp
  have c1: "(\<exists>err. post e obj req d = (Inl err, d)) \<or>
      out = Done \<and> post e obj req d = (Inr Redirect, d1)"
  proof (cases out)
    case (Raised err)
    with raised show ?thesis by blast
  next
    case Done
    show ?thesis
    proof (cases "success_response e obj req")
      case (Inl err)
      with Done response_raised show ?thesis by blast
    next
      case (Inr resp)
      with success_response_Redirect[OF Inr] Done committed show ?thesis by simp
    qed
  qed
  have c4: "extends d d1 \<and> covered ?s0 d s1 d1" if "out = Done"
  proof -
    from run that have r: "run_creations e obj req d = (Done, s1, d1)" by simp
    from run_creations_evolves[OF r] have "extends d d1"
      by (simp add: evolves_def consistentD(1))
    with run_creations_covered[OF r] show ?thesis by simp
  qed
  have c5: "post e obj req d = (Inl StorageFailure, d)"
    if "source_fails e (specific_instance e (page obj))"
    using run_creations_root_source[OF that, where req = req and d = d] run raised by simp
  have c6: "out \<noteq> Done"
    if k: "k \<in> seen_objects s1"
      and f: "(\<forall>inst. translation_key inst = k \<longrightarrow> source_fails e inst) \<or>
        (\<exists>l \<in> set ?ls. translation_fails e (TranslationSource k) l)" for k
  proof
    assume "out = Done"
    with run have r: "run_creations e obj req d = (Done, s1, d1)" by simp
    from k have "k \<in> seen_objects s1 - seen_objects ?s0" by (simp add: TranslationCreator_def)
    with run_creations_unfailed[OF r]
    have "(\<exists>inst. translation_key inst = k \<and> \<not> source_fails e inst) \<and>
        (\<forall>l \<in> set ?ls. \<not> translation_fails e (TranslationSource k) l)"
      unfolding unfailed_def by (simp add: TranslationCreator_def)
    with f show False by blast
  qed
  have c7: "out \<noteq> Done" if t: "t \<in> set (new_translations d d1)" "save_target_fails e t" for t
  proof
    assume "out = Done"
    with run have r: "run_creations e obj req d = (Done, s1, d1)" by simp
    from run_creations_saved[OF r t(1)] t(2) show False by simp
  qed
  have c8: "out = Done" if "quiet e ?ls" "\<forall>k l. get_instance e k l \<noteq> None"
    using run_creations_Done[OF that, where d = d] run by auto
  show ?thesis
    using c1 raised response_raised committed c4 c5 not_done[OF c6] not_done[OF c7] c8
    by blast
qed

theorem post_commits_all_or_nothing_witness:
  "run_creations fifth_fails (PageNode (snippet 1 0) [])
     \<lparr>request_user = 7, POST = \<lparr>locales = [1, 2, 3, 4, 5], include_subtree = False\<rparr>, next_url = []\<rparr> empty_db =
     (Raised StorageFailure,
      \<lparr>user = 7, target_locales = [1, 2, 3, 4, 5], seen_objects = {1}\<rparr>,
      \<lparr>source_objects = [TranslationSource 1],
       translation_objects =
         [Translation (TranslationSource 1) 1, Translation (TranslationSource 1) 2,
          Translation (TranslationSource 1) 3, Translation (TranslationSource 1) 4],
       journal =
         [SourceCreated (TranslationSource 1),
          TranslationCreated (Translation (TranslationSource 1) 1),
          TargetSaved (Translation (TranslationSource 1) 1) 7,
          TranslationCreated (Translation (TranslationSource 1) 2),
          TargetSaved (Translation (TranslationSource 1) 2) 7,
          TranslationCreated (Translation (TranslationSource 1) 3),
          TargetSaved (Translation (TranslationSource 1) 3) 7,
          TranslationCreated (Translation (TranslationSource 1) 4),
          TargetSaved (Translation (TranslationSource 1) 4) 7]\<rparr>) \<and>
   post fifth_fails (PageNode (snippet 1 0) [])
     \<lparr>request_user = 7, POST = \<lparr>locales = [1, 2, 3, 4, 5], include_subtree = False\<rparr>, next_url = []\<rparr> empty_db =
     (Inl StorageFailure, empty_db) \<and>
   run_creations source_two_fails root_with_child
     \<lparr>request_user = 7, POST = \<lparr>locales = [1], include_subtree = True\<rparr>, next_url = []\<rparr> empty_db =
     (Raised StorageFailure,
      \<lparr>user = 7, target_locales = [1], seen_objects = {2, 1}\<rparr>,
      \<lparr>source_objects = [TranslationSource 1],
       translation_objects = [Translation (TranslationSource 1) 1],
       journal =
         [SourceCreated (TranslationSource 1),
          TranslationCreated (Translation (TranslationSource 1) 1),
          TargetSaved (Translation (TranslationSource 1) 1) 7]\<rparr>) \<and>
   post source_two_fails root_with_child
     \<lparr>request_user = 7, POST = \<lparr>locales = [1], include_subtree = True\<rparr>, next_url = []\<rparr> empty_db =
     (Inl StorageFailure, empty_db) \<and>
   post source_two_fails (PageNode (snippet 2 0) [])
     \<lparr>request_user = 7, POST = \<lparr>locales = [1], include_subtree = False\<rparr>, next_url = []\<rparr> empty_db =
     (Inl StorageFailure, empty_db) \<and>
   run_creations save_two_fails (PageNode (snippet 1 0) [])
     \<lparr>request_user = 7, POST = \<lparr>locales = [1, 2], include_subtree = False\<rparr>, next_url = []\<rparr> empty_db =
     (Raised StorageFailure,
      \<lparr>user = 7, target_locales = [1, 2], seen_objects = {1}\<rparr>,
      \<lparr>source_objects = [TranslationSource 1],
       translation_objects =
         [Translation (TranslationSource 1) 1, Translation (TranslationSource 1) 2],
       journal =
         [SourceCreated (TranslationSource 1),
          TranslationCreated (Translation (TranslationSource 1) 1),
          TargetSaved (Translation (TranslationSource 1) 1) 7,
          TranslationCreated (Translation (TranslationSource 1) 2)]\<rparr>) \<and>
   post save_two_fails (PageNode (snippet 1 0) [])
     \<lparr>request_user = 7, POST = \<lparr>locales = [1, 2], include_subtree = False\<rparr>, next_url = []\<rparr> empty_db =
     (Inl StorageFailure, empty_db) \<and>
   post parentless (PageNode (page_instance 1 0 0) [])
     \<lparr>request_user = 7, POST = \<lparr>locales = [1], include_subtree = False\<rparr>, next_url = []\<rparr> empty_db =
     (Inl AttributeError, empty_db) \<and>
   post (graph_env (\<lambda>k. [])) root_with_child
     \<lparr>request_user = 7, POST = \<lparr>locales = [1], include_subtree = True\<rparr>, next_url = []\<rparr> empty_db =
     (Inr Redirect,
      \<lparr>source_objects = [TranslationSource 1, TranslationSource 2],
       translation_objects = [Translation (TranslationSource 1) 1, Translation (TranslationSource 2) 1],
       journal =
         [SourceCreated (TranslationSource 1),
          TranslationCreated (Translation (TranslationSource 1) 1),
          TargetSaved (Translation (TranslationSource 1) 1) 7,
          SourceCreated (TranslationSource 2),
          TranslationCreated (Translation (TranslationSource 2) 1),
          TargetSaved (Translation (TranslationSource 2) 1) 7]\<rparr>) \<and>
   extends empty_db
     \<lparr>source_objects = [TranslationSource 1, TranslationSource 2],
       translation_objects = [Translation (TranslationSource 1) 1, Translation (TranslationSource 2) 1],
       journal =
         [SourceCreated (TranslationSource 1),
          TranslationCreated (Translation (TranslationSource 1) 1),
          TargetSaved (Translation (TranslationSource 1) 1) 7,
          SourceCreated (TranslationSource 2),
          TranslationCreated (Translation (TranslationSource 2) 1),
          TargetSaved (Translation (TranslationSource 2) 1) 7]\<rparr> \<and>
   fst (run_creations (graph_env (\<lambda>k. [])) root_with_child
     \<lparr>request_user = 7, POST = \<lparr>locales = [1], include_subtree = True\<rparr>, next_url = []\<rparr> db_one) = Done"
proof -
  let ?req5 = "\<lparr>request_user = 7, POST = \<lparr>locales = [1, 2, 3, 4, 5], include_subtree = False\<rparr>, next_url = []\<rparr>"
  let ?req12 = "\<lparr>request_user = 7, POST = \<lparr>locales = [1, 2], include_subtree = False\<rparr>, next_url = []\<rparr>"
  let ?req1 = "\<lparr>request_user = 7, POST = \<lparr>locales = [1], include_subtree = False\<rparr>, next_url = []\<rparr>"
  let ?reqT = "\<lparr>request_user = 7, POST = \<lparr>locales = [1], include_subtree = True\<rparr>, next_url = []\<rparr>"
  let ?one = "PageNode (snippet 1 0) []"
  let ?two = "PageNode (snippet 2 0) []"
  let ?top = "PageNode (page_instance 1 0 0) []"
  let ?quiet = "graph_env (\<lambda>k. [])"
  let ?d5 = "\<lparr>source_objects = [TranslationSource 1],
       translation_objects =
         [Translation (TranslationSource 1) 1, Translation (TranslationSource 1) 2,
          Translation (TranslationSource 1) 3, Translation (TranslationSource 1) 4],
       journal =
         [SourceCreated (TranslationSource 1),
          TranslationCreated (Translation (TranslationSource 1) 1),
          TargetSaved (Translation (TranslationSource 1) 1) 7,
          TranslationCreated (Translation (TranslationSource 1) 2),
          TargetSaved (Translation (TranslationSource 1) 2) 7,
          TranslationCreated (Translation (TranslationSource 1) 3),
          TargetSaved (Translation (TranslationSource 1) 3) 7,
          TranslationCreated (Translation (TranslationSource 1) 4),
          TargetSaved (Translation (TranslationSource 1) 4) 7]\<rparr>"
  let ?d2 = "\<lparr>source_objects = [TranslationSource 1],
       translation_objects = [Translation (TranslationSource 1) 1],
       journal =
         [SourceCreated (TranslationSource 1),
          TranslationCreated (Translation (TranslationSource 1) 1),
          TargetSaved (Translation (TranslationSource 1) 1) 7]\<rparr>"
  let ?d3 = "\<lparr>source_objects = [TranslationSource 1],
       translation_objects =
         [Translation (TranslationSource 1) 1, Translation (TranslationSource 1) 2],
       journal =
         [SourceCreated (TranslationSource 1),
          TranslationCreated (Translation (TranslationSource 1) 1),
          TargetSaved (Translation (TranslationSource 1) 1) 7,
          TranslationCreated (Translation (TranslationSource 1) 2)]\<rparr>"
  let ?dT = "\<lparr>source_objects = [TranslationSource 1, TranslationSource 2],
       translation_objects = [Translation (TranslationSource 1) 1, Translation (TranslationSource 2) 1],
       journal =
         [SourceCreated (TranslationSource 1),
          TranslationCreated (Translation (TranslationSource 1) 1),
          TargetSaved (Translation (TranslationSource 1) 1) 7,
          SourceCreated (TranslationSource 2),
          TranslationCreated (Translation (TranslationSource 2) 1),
          TargetSaved (Translation (TranslationSource 2) 1) 7]\<rparr>"

  txt \<open>The task for the fifth of five locales cannot be created.\<close>
  have v5: "is_valid fifth_fails (page ?one) (POST ?req5)" by code_simp
  have r5: "run_creations fifth_fails ?one ?req5 empty_db =
      (Raised StorageFailure, \<lparr>user = 7, target_locales = [1, 2, 3, 4, 5], seen_objects = {1}\<rparr>, ?d5)"
    by code_simp
  note t5 = post_commits_all_or_nothing[OF v5 r5]
  from t5[THEN conjunct2, THEN conjunct1, THEN spec, of StorageFailure, THEN mp, OF refl]
  have p5: "post fifth_fails ?one ?req5 empty_db = (Inl StorageFailure, empty_db)" .
  have k5: "1 \<in> seen_objects \<lparr>user = 7, target_locales = [1, 2, 3, 4, 5], seen_objects = {1}\<rparr>"
    by simp
  have "\<exists>l \<in> set (cleaned_locales fifth_fails (page ?one) (POST ?req5)).
      translation_fails fifth_fails (TranslationSource 1) l"
    by code_simp
  then have f5: "(\<forall>inst. translation_key inst = 1 \<longrightarrow> source_fails fifth_fails inst) \<or>
      (\<exists>l \<in> set (cleaned_locales fifth_fails (page ?one) (POST ?req5)).
         translation_fails fifth_fails (TranslationSource 1) l)"
    by (rule disjI2)
  from t5[THEN conjunct2, THEN conjunct2, THEN conjunct2, THEN conjunct2, THEN conjunct2,
      THEN conjunct1, THEN bspec, OF k5, THEN mp, OF f5]
  have l5: "post fifth_fails ?one ?req5 empty_db = (Inl StorageFailure, empty_db)" by auto

  txt \<open>The source of the child page cannot be created, during the walk over the subtree.\<close>
  have v2: "is_valid source_two_fails (page root_with_child) (POST ?reqT)" by code_simp
  have r2: "run_creations source_two_fails root_with_child ?reqT empty_db =
      (Raised StorageFailure, \<lparr>user = 7, target_locales = [1], seen_objects = {2, 1}\<rparr>, ?d2)"
    by code_simp
  note t2 = post_commits_all_or_nothing[OF v2 r2]
  have k2: "2 \<in> seen_objects \<lparr>user = 7, target_locales = [1], seen_objects = {2, 1}\<rparr>"
    by simp
  have "\<forall>inst. translation_key inst = 2 \<longrightarrow> source_fails source_two_fails inst"
    by (simp add: source_two_fails_def)
  then have f2: "(\<forall>inst. translation_key inst = 2 \<longrightarrow> source_fails source_two_fails inst) \<or>
      (\<exists>l \<in> set (cleaned_locales source_two_fails (page root_with_child) (POST ?reqT)).
         translation_fails source_two_fails (TranslationSource 2) l)"
    by (rule disjI1)
  from t2[THEN conjunct2, THEN conjunct2, THEN conjunct2, THEN conjunct2, THEN conjunct2,
      THEN conjunct1, THEN bspec, OF k2, THEN mp, OF f2]
  have l2: "post source_two_fails root_with_child ?reqT empty_db = (Inl StorageFailure, empty_db)"
    by auto

  txt \<open>The source of the submitted object cannot be created.\<close>
  have vs: "is_valid source_two_fails (page ?two) (POST ?req1)" by code_simp
  have rs: "run_creations source_two_fails ?two ?req1 empty_db =
      (Raised StorageFailure, \<lparr>user = 7, target_locales = [1], seen_objects = {2}\<rparr>, empty_db)"
    by code_simp
  have fs: "source_fails source_two_fails (specific_instance source_two_fails (page ?two))"
    by code_simp
  from post_commits_all_or_nothing[OF vs rs, THEN conjunct2, THEN conjunct2, THEN conjunct2,
      THEN conjunct2, THEN conjunct1, THEN mp, OF fs]
  have ps: "post source_two_fails ?two ?req1 empty_db = (Inl StorageFailure, empty_db)" .

  txt \<open>The task for locale 2 is created, and its initialisation fails.\<close>
  have v3: "is_valid save_two_fails (page ?one) (POST ?req12)" by code_simp
  have r3: "run_creations save_two_fails ?one ?req12 empty_db =
      (Raised StorageFailure, \<lparr>user = 7, target_locales = [1, 2], seen_objects = {1}\<rparr>, ?d3)"
    by code_simp
  have m3: "Translation (TranslationSource 1) 2 \<in> set (new_translations empty_db ?d3)"
    by code_simp
  have f3: "save_target_fails save_two_fails (Translation (TranslationSource 1) 2)"
    by code_simp
  from post_commits_all_or_nothing[OF v3 r3, THEN conjunct2, THEN conjunct2, THEN conjunct2,
      THEN conjunct2, THEN conjunct2, THEN conjunct2, THEN conjunct1, THEN bspec, OF m3,
      THEN mp, OF f3]
  have l3: "post save_two_fails ?one ?req12 empty_db = (Inl StorageFailure, empty_db)" by auto

  txt \<open>All creations return, and the redirect raises.\<close>
  have v4: "is_valid parentless (page ?top) (POST ?req1)" by code_simp
  have r4: "run_creations parentless ?top ?req1 empty_db =
      (Done, \<lparr>user = 7, target_locales = [1], seen_objects = {1}\<rparr>, ?d2)"
    by code_simp
  have s4: "success_response parentless ?top ?req1 = Inl AttributeError" by code_simp
  from post_commits_all_or_nothing[OF v4 r4, THEN conjunct2, THEN conjunct2, THEN conjunct1,
      THEN spec, of AttributeError, THEN mp, OF conjI[OF refl s4]]
  have p4: "post parentless ?top ?req1 empty_db = (Inl AttributeError, empty_db)" .

  txt \<open>Nothing fails.\<close>
  have vT: "is_valid ?quiet (page root_with_child) (POST ?reqT)" by code_simp
  have rT: "run_creations ?quiet root_with_child ?reqT empty_db =
      (Done, \<lparr>user = 7, target_locales = [1], seen_objects = {2, 1}\<rparr>, ?dT)"
    by code_simp
  have sT: "success_response ?quiet root_with_child ?reqT = Inr Redirect" by code_simp
  from post_commits_all_or_nothing[OF vT rT, THEN conjunct2, THEN conjunct2, THEN conjunct2,
      THEN conjunct1, THEN mp, OF conjI[OF refl sT]]
  have pT: "post ?quiet root_with_child ?reqT empty_db = (Inr Redirect, ?dT)"
    and eT: "extends empty_db ?dT" by blast+
  obtain out s1 d1 where rD: "run_creations ?quiet root_with_child ?reqT db_one = (out, s1, d1)"
    by (metis prod_cases3)
  have q: "quiet ?quiet (cleaned_locales ?quiet (page root_with_child) (POST ?reqT))"
    by (simp add: quiet_def graph_env_def)
  have g: "\<forall>k l. get_instance ?quiet k l \<noteq> None"
    by (simp add: graph_env_def)
  from post_commits_all_or_nothing[OF vT rD, THEN conjunct2, THEN conjunct2, THEN conjunct2,
      THEN conjunct2, THEN conjunct2, THEN conjunct2, THEN conjunct2, THEN mp, OF conjI[OF q g]]
  have "out = Done" .
  with rD have fD: "fst (run_creations ?quiet root_with_child ?reqT db_one) = Done" by simp
  from r5 p5 l5 r2 l2 ps r3 l3 p4 pT eT fD show ?thesis by blast
qed

text \<open>
  The claim as it was stated fails where it says that the sources and tasks of a run
  commit together when no creation fails: in an environment in which no repository call
  raises, a page without parent is submitted with a valid form and without a next URL.
  All creations return, having written a source and a task, and then the default success
  URL of line 183 raises inside the block, so nothing of the run is persisted.
\<close>

theorem created_but_not_committed_counterexample:
  "is_valid parentless (page_instance 1 0 0) \<lparr>locales = [1], include_subtree = False\<rparr> \<and>
   run_creations parentless (PageNode (page_instance 1 0 0) [])
     \<lparr>request_user = 7, POST = \<lparr>locales = [1], include_subtree = False\<rparr>, next_url = []\<rparr> empty_db =
     (Done, \<lparr>user = 7, target_locales = [1], seen_objects = {1}\<rparr>,
      \<lparr>source_objects = [TranslationSource 1],
       translation_objects = [Translation (TranslationSource 1) 1],
       journal =
         [SourceCreated (TranslationSource 1),
          TranslationCreated (Translation (TranslationSource 1) 1),
          TargetSaved (Translation (TranslationSource 1) 1) 7]\<rparr>) \<and>
   success_response parentless (PageNode (page_instance 1 0 0) [])
     \<lparr>request_user = 7, POST = \<lparr>locales = [1], include_subtree = False\<rparr>, next_url = []\<rparr> =
     Inl AttributeError \<and>
   post parentless (PageNode (page_instance 1 0 0) [])
     \<lparr>request_user = 7, POST = \<lparr>locales = [1], include_subtree = False\<rparr>, next_url = []\<rparr> empty_db =
     (Inl AttributeError, empty_db)"
  by code_simp

text \<open>
  C9. When an object has been treated by \<open>create_translations\<close> with
  \<^verbatim>\<open>include_related_objects=False\<close>, its translation key is among the seen objects,
  whatever the outcome; the set of seen objects only grows during a run, and in every
  later state of the translator a call for the same object, also one with
  \<^verbatim>\<open>include_related_objects=True\<close>, returns at once and changes nothing: its related
  objects are not treated. So which related objects get a source depends on the path
  that reaches an object first.
\<close>

theorem seen_object_is_never_expanded:
  assumes first: "create_translations e i False s d = (out, s1, d1)"
    and later: "seen_objects s1 \<subseteq> seen_objects s2"
  shows "translation_key (specific_instance e i) \<in> seen_objects s1 \<and>
         create_translations e i b s2 d2 = (Done, s2, d2)"
proof -
  from create_translations_marks[OF first]
  have m: "translation_key (specific_instance e i) \<in> seen_objects s1" .
  with later have "translation_key (specific_instance e i) \<in> seen_objects s2" by auto
  with m show ?thesis by (simp add: create_translations_seen)
qed

theorem seen_object_is_never_expanded_witness:
  "create_translations (graph_env chain) (snippet 2 0) False (TranslationCreator 7 [1]) empty_db =
     (Done, \<lparr>user = 7, target_locales = [1], seen_objects = {2}\<rparr>,
      \<lparr>source_objects = [TranslationSource 2],
       translation_objects = [Translation (TranslationSource 2) 1],
       journal =
         [SourceCreated (TranslationSource 2),
          TranslationCreated (Translation (TranslationSource 2) 1),
          TargetSaved (Translation (TranslationSource 2) 1) 7]\<rparr>) \<and>
   create_translations (graph_env chain) (snippet 2 0) True
     \<lparr>user = 7, target_locales = [1], seen_objects = {2}\<rparr>
     \<lparr>source_objects = [TranslationSource 2],
       translation_objects = [Translation (TranslationSource 2) 1],
       journal =
         [SourceCreated (TranslationSource 2),
          TranslationCreated (Translation (TranslationSource 2) 1),
          TargetSaved (Translation (TranslationSource 2) 1) 7]\<rparr> =
     (Done, \<lparr>user = 7, target_locales = [1], seen_objects = {2}\<rparr>,
      \<lparr>source_objects = [TranslationSource 2],
       translation_objects = [Translation (TranslationSource 2) 1],
       journal =
         [SourceCreated (TranslationSource 2),
          TranslationCreated (Translation (TranslationSource 2) 1),
          TargetSaved (Translation (TranslationSource 2) 1) 7]\<rparr>) \<and>
   relatedobjectsegment_set (graph_env chain) (TranslationSource 2) = [3] \<and>
   create_translations (graph_env chain) (snippet 2 0) True (TranslationCreator 7 [1]) empty_db =
     (Done, \<lparr>user = 7, target_locales = [1], seen_objects = {3, 2}\<rparr>,
      \<lparr>source_objects = [TranslationSource 2, TranslationSource 3],
       translation_objects = [Translation (TranslationSource 3) 1, Translation (TranslationSource 2) 1],
       journal =
         [SourceCreated (TranslationSource 2), SourceCreated (TranslationSource 3),
          TranslationCreated (Translation (TranslationSource 3) 1),
          TargetSaved (Translation (TranslationSource 3) 1) 7,
          TranslationCreated (Translation (TranslationSource 2) 1),
          TargetSaved (Translation (TranslationSource 2) 1) 7]\<rparr>) \<and>
   post (graph_env chain) root_with_child
     \<lparr>request_user = 7, POST = \<lparr>locales = [1], include_subtree = True\<rparr>, next_url = []\<rparr> empty_db =
     (Inr Redirect,
      \<lparr>source_objects = [TranslationSource 1, TranslationSource 2],
       translation_objects = [Translation (TranslationSource 2) 1, Translation (TranslationSource 1) 1],
       journal =
         [SourceCreated (TranslationSource 1), SourceCreated (TranslationSource 2),
          TranslationCreated (Translation (TranslationSource 2) 1),
          TargetSaved (Translation (TranslationSource 2) 1) 7,
          TranslationCreated (Translation (TranslationSource 1) 1),
          TargetSaved (Translation (TranslationSource 1) 1) 7]\<rparr>) \<and>
   post (graph_env child_only) root_with_child
     \<lparr>request_user = 7, POST = \<lparr>locales = [1], include_subtree = True\<rparr>, next_url = []\<rparr> empty_db =
     (Inr Redirect,
      \<lparr>source_objects = [TranslationSource 1, TranslationSource 2, TranslationSource 3],
       translation_objects =
         [Translation (TranslationSource 1) 1, Translation (TranslationSource 3) 1,
          Translation (TranslationSource 2) 1],
       journal =
         [SourceCreated (TranslationSource 1),
          TranslationCreated (Translation (TranslationSource 1) 1),
          TargetSaved (Translation (TranslationSource 1) 1) 7,
          SourceCreated (TranslationSource 2), SourceCreated (TranslationSource 3),
          TranslationCreated (Translation (TranslationSource 3) 1),
          TargetSaved (Translation (TranslationSource 3) 1) 7,
          TranslationCreated (Translation (TranslationSource 2) 1),
          TargetSaved (Translation (TranslationSource 2) 1) 7]\<rparr>)"
proof -
  have first: "create_translations (graph_env chain) (snippet 2 0) False (TranslationCreator 7 [1]) empty_db =
     (Done, \<lparr>user = 7, target_locales = [1], seen_objects = {2}\<rparr>,
      \<lparr>source_objects = [TranslationSource 2],
       translation_objects = [Translation (TranslationSource 2) 1],
       journal =
         [SourceCreated (TranslationSource 2),
          TranslationCreated (Translation (TranslationSource 2) 1),
          TargetSaved (Translation (TranslationSource 2) 1) 7]\<rparr>)"
    by code_simp
  have rel: "relatedobjectsegment_set (graph_env chain) (TranslationSource 2) = [3]"
    by code_simp
  have other: "create_translations (graph_env chain) (snippet 2 0) True (TranslationCreator 7 [1]) empty_db =
     (Done, \<lparr>user = 7, target_locales = [1], seen_objects = {3, 2}\<rparr>,
      \<lparr>source_objects = [TranslationSource 2, TranslationSource 3],
       translation_objects = [Translation (TranslationSource 3) 1, Translation (TranslationSource 2) 1],
       journal =
         [SourceCreated (TranslationSource 2), SourceCreated (TranslationSource 3),
          TranslationCreated (Translation (TranslationSource 3) 1),
          TargetSaved (Translation (TranslationSource 3) 1) 7,
          TranslationCreated (Translation (TranslationSource 2) 1),
          TargetSaved (Translation (TranslationSource 2) 1) 7]\<rparr>)"
    by code_simp
  have postA: "post (graph_env chain) root_with_child
     \<lparr>request_user = 7, POST = \<lparr>locales = [1], include_subtree = True\<rparr>, next_url = []\<rparr> empty_db =
     (Inr Redirect,
      \<lparr>source_objects = [TranslationSource 1, TranslationSource 2],
       translation_objects = [Translation (TranslationSource 2) 1, Translation (TranslationSource 1) 1],
       journal =
         [SourceCreated (TranslationSource 1), SourceCreated (TranslationSource 2),
          TranslationCreated (Translation (TranslationSource 2) 1),
          TargetSaved (Translation (TranslationSource 2) 1) 7,
          TranslationCreated (Translation (TranslationSource 1) 1),
          TargetSaved (Translation (TranslationSource 1) 1) 7]\<rparr>)"
    by code_simp
  have postB: "post (graph_env child_only) root_with_child
     \<lparr>request_user = 7, POST = \<lparr>locales = [1], include_subtree = True\<rparr>, next_url = []\<rparr> empty_db =
     (Inr Redirect,
      \<lparr>source_objects = [TranslationSource 1, TranslationSource 2, TranslationSource 3],
       translation_objects =
         [Translation (TranslationSource 1) 1, Translation (TranslationSource 3) 1,
          Translation (TranslationSource 2) 1],
       journal =
         [SourceCreated (TranslationSource 1),
          TranslationCreated (Translation (TranslationSource 1) 1),
          TargetSaved (Translation (TranslationSource 1) 1) 7,
          SourceCreated (TranslationSource 2), SourceCreated (TranslationSource 3),
          TranslationCreated (Translation (TranslationSource 3) 1),
          TargetSaved (Translation (TranslationSource 3) 1) 7,
          TranslationCreated (Translation (TranslationSource 2) 1),
          TargetSaved (Translation (TranslationSource 2) 1) 7]\<rparr>)"
    by code_simp
  from seen_object_is_never_expanded[OF first subset_refl, of True]
  have later: "create_translations (graph_env chain) (snippet 2 0) True
     \<lparr>user = 7, target_locales = [1], seen_objects = {2}\<rparr>
     \<lparr>source_objects = [TranslationSource 2],
       translation_objects = [Translation (TranslationSource 2) 1],
       journal =
         [SourceCreated (TranslationSource 2),
          TranslationCreated (Translation (TranslationSource 2) 1),
          TargetSaved (Translation (TranslationSource 2) 1) 7]\<rparr> =
     (Done, \<lparr>user = 7, target_locales = [1], seen_objects = {2}\<rparr>,
      \<lparr>source_objects = [TranslationSource 2],
       translation_objects = [Translation (TranslationSource 2) 1],
       journal =
         [SourceCreated (TranslationSource 2),
          TranslationCreated (Translation (TranslationSource 2) 1),
          TargetSaved (Translation (TranslationSource 2) 1) 7]\<rparr>)"
    by blast
  from first later rel other postA postB show ?thesis by blast
qed

text \<open>
  C10. \<open>create_translations\<close> does not check its target locales: with an empty list of
  them and a new translator, when the source repository does not raise and the related
  object segments of the object resolve, the call returns normally, the object and each
  of its related objects have a source, and no translation is created.
\<close>

theorem no_target_locales:
  assumes q: "\<forall>i. \<not> source_fails e i"
    and r: "resolvable e (specific_instance e A)
      (relatedobjectsegment_set e (TranslationSource (translation_key (specific_instance e A))))"
  shows "\<exists>s' d'. create_translations e A True (TranslationCreator u []) d = (Done, s', d') \<and>
     (\<forall>x \<in> insert (specific_instance e A)
         (set (related_instances e (specific_instance e A)
           (relatedobjectsegment_set e (TranslationSource (translation_key (specific_instance e A)))))).
        TranslationSource (translation_key x) \<in> set (source_objects d')) \<and>
     translation_objects d' = translation_objects d \<and>
     created_translations (new_events d d') = []"
proof -
  let ?s = "TranslationCreator u []"
  let ?A = "specific_instance e A"
  let ?rel = "related_instances e ?A (relatedobjectsegment_set e (TranslationSource (translation_key ?A)))"
  have s: "seen_objects ?s = {}" "target_locales ?s = []" by (simp_all add: TranslationCreator_def)
  have "quiet e (target_locales ?s)" using q by (simp add: quiet_def s)
  then obtain s' d' where run: "create_translations e A True ?s d = (Done, s', d')"
    using create_translations_Done[of e ?s A d] r by auto
  have seen: "seen_objects s' = translation_key ` insert ?A (set ?rel)"
    using create_translations_True_seen[OF run] s by simp
  note c = create_translations_consistent[OF run]
  have cov: "covered ?s d s' d'" using create_translations_covered[OF run] .
  have 1: "\<forall>x \<in> insert ?A (set ?rel). TranslationSource (translation_key x) \<in> set (source_objects d')"
    using cov seen s by (auto simp: covered_def)
  have "\<forall>t \<in> set (new_translations d d'). target_locale t \<in> set (target_locales ?s)"
    using create_translations_evolves[OF run] by (simp add: evolves_def)
  then have n: "new_translations d d' = []" by (simp add: s)
  then have 2: "translation_objects d' = translation_objects d"
    using extends_tables(2)[OF consistentD(1)[OF c]] by simp
  have 3: "created_translations (new_events d d') = []"
    using n consistentD(3)[OF c] by simp
  from run 1 2 3 show ?thesis by blast
qed

theorem no_target_locales_witness:
  "(\<forall>i. \<not> source_fails (graph_env chain) i) \<and>
   resolvable (graph_env chain) (specific_instance (graph_env chain) (snippet 1 0))
     (relatedobjectsegment_set (graph_env chain)
       (TranslationSource (translation_key (specific_instance (graph_env chain) (snippet 1 0))))) \<and>
   create_translations (graph_env chain) (snippet 1 0) True (TranslationCreator 7 []) empty_db =
     (Done, \<lparr>user = 7, target_locales = [], seen_objects = {2, 1}\<rparr>,
      \<lparr>source_objects = [TranslationSource 1, TranslationSource 2],
       translation_objects = [],
       journal = [SourceCreated (TranslationSource 1), SourceCreated (TranslationSource 2)]\<rparr>)"
proof -
  have q: "\<forall>i. \<not> source_fails (graph_env chain) i"
    by (simp add: graph_env_def)
  have r: "resolvable (graph_env chain) (specific_instance (graph_env chain) (snippet 1 0))
     (relatedobjectsegment_set (graph_env chain)
       (TranslationSource (translation_key (specific_instance (graph_env chain) (snippet 1 0)))))"
    by (simp add: resolvable_def graph_env_def)
  have run: "create_translations (graph_env chain) (snippet 1 0) True (TranslationCreator 7 []) empty_db =
     (Done, \<lparr>user = 7, target_locales = [], seen_objects = {2, 1}\<rparr>,
      \<lparr>source_objects = [TranslationSource 1, TranslationSource 2],
       translation_objects = [],
       journal = [SourceCreated (TranslationSource 1), SourceCreated (TranslationSource 2)]\<rparr>)"
    by code_simp
  from no_target_locales[OF q r, of 7 empty_db]
  show ?thesis using q r run by simp
qed

end
